theory Spec2Isabelle
  imports Complex_Main "HOL-Library.Char_ord" "HOL-Library.List_Lexorder" "HOL-Library.Sublist"
begin

section \<open>Series\<close>

text \<open>
  A pandas Series is an index (here: timestamps, as integers) with one value per index
  entry. Prices are finite numbers, modelled as reals; the not-a-number value that pandas
  produces for the minimum of an empty slice, for a missing label or for the first
  difference is \<open>None\<close>. A comparison with not-a-number is false.
\<close>

type_synonym ts = int

type_synonym series = "(ts \<times> real) list"

datatype error = ValueError | KeyError | IndexError | IOError

definition iloc_slice :: "'a list \<Rightarrow> nat \<Rightarrow> nat \<Rightarrow> 'a list" where
  \<comment> \<open>\<open>s.iloc[a:b]\<close> for non-negative bounds\<close>
  "iloc_slice xs a b = take (b - a) (drop a xs)"

fun series_min :: "real list \<Rightarrow> real option" where
  "series_min [] = None"
| "series_min (x # xs) = (case series_min xs of None \<Rightarrow> Some x | Some m \<Rightarrow> Some (min x m))"

fun series_max :: "real list \<Rightarrow> real option" where
  "series_max [] = None"
| "series_max (x # xs) = (case series_max xs of None \<Rightarrow> Some x | Some m \<Rightarrow> Some (max x m))"

definition nan_eq :: "real \<Rightarrow> real option \<Rightarrow> bool" where
  "nan_eq c m = (case m of None \<Rightarrow> False | Some v \<Rightarrow> c = v)"

definition nan_lt :: "real \<Rightarrow> real option \<Rightarrow> bool" where
  "nan_lt c m = (case m of None \<Rightarrow> False | Some v \<Rightarrow> c < v)"

definition nan_gt :: "real \<Rightarrow> real option \<Rightarrow> bool" where
  "nan_gt c m = (case m of None \<Rightarrow> False | Some v \<Rightarrow> c > v)"

section \<open>Pivot detection (divergence.py)\<close>

text \<open>
  The window size \<open>k\<close> and the lookback are counts of bars and are modelled as
  natural numbers. The loop \<open>for i in range(k, n - k)\<close> is a fold over \<open>[k..<n - k]\<close>
  (empty when \<open>n - k \<le> k\<close>), whose body appends the index label of position \<open>i\<close>.
\<close>

definition pivot_low_at :: "series \<Rightarrow> nat \<Rightarrow> bool \<Rightarrow> nat \<Rightarrow> bool" where
  "pivot_low_at close k strict i =
     (let vals = map snd close;
          left = iloc_slice vals (i - k) i;
          right = iloc_slice vals (i + 1) (i + k + 1);
          c = vals ! i
      in if nan_eq c (series_min (iloc_slice vals (i - k) (i + k + 1)))
         then (if \<not> strict then True
               else nan_lt c (series_min left) \<and> nan_lt c (series_min right))
         else False)"

definition find_pivot_lows :: "series \<Rightarrow> nat \<Rightarrow> bool \<Rightarrow> ts list" where
  "find_pivot_lows close k strict =
     fold (\<lambda>i idxs. if pivot_low_at close k strict i then idxs @ [fst (close ! i)] else idxs)
          [k ..< length close - k] []"

definition pivot_high_at :: "series \<Rightarrow> nat \<Rightarrow> bool \<Rightarrow> nat \<Rightarrow> bool" where
  "pivot_high_at close k strict i =
     (let vals = map snd close;
          left = iloc_slice vals (i - k) i;
          right = iloc_slice vals (i + 1) (i + k + 1);
          c = vals ! i
      in if nan_eq c (series_max (iloc_slice vals (i - k) (i + k + 1)))
         then (if \<not> strict then True
               else nan_gt c (series_max left) \<and> nan_gt c (series_max right))
         else False)"

definition find_pivot_highs :: "series \<Rightarrow> nat \<Rightarrow> bool \<Rightarrow> ts list" where
  "find_pivot_highs close k strict =
     fold (\<lambda>i idxs. if pivot_high_at close k strict i then idxs @ [fst (close ! i)] else idxs)
          [k ..< length close - k] []"

text \<open>The positions the two loops select, and the specification's two pivot tests.\<close>

definition pivot_low_positions :: "series \<Rightarrow> nat \<Rightarrow> bool \<Rightarrow> nat list" where
  "pivot_low_positions close k strict =
     filter (pivot_low_at close k strict) [k ..< length close - k]"

definition pivot_high_positions :: "series \<Rightarrow> nat \<Rightarrow> bool \<Rightarrow> nat list" where
  "pivot_high_positions close k strict =
     filter (pivot_high_at close k strict) [k ..< length close - k]"

definition window_minimum :: "series \<Rightarrow> nat \<Rightarrow> nat \<Rightarrow> bool" where
  \<comment> \<open>value(i) equals the minimum of the window [i - k, i + k]\<close>
  "window_minimum close k i =
     (\<forall>j \<in> set [i - k ..< i + k + 1]. snd (close ! i) \<le> snd (close ! j))"

definition strictly_below_neighbours :: "series \<Rightarrow> nat \<Rightarrow> nat \<Rightarrow> bool" where
  \<comment> \<open>value(i) is strictly less than the k values before and the k values after\<close>
  "strictly_below_neighbours close k i =
     ((\<forall>j \<in> set [i - k ..< i]. snd (close ! i) < snd (close ! j)) \<and>
      (\<forall>j \<in> set [i + 1 ..< i + k + 1]. snd (close ! i) < snd (close ! j)))"

definition pivot_lows_spec :: "series \<Rightarrow> nat \<Rightarrow> bool \<Rightarrow> ts list" where
  \<comment> \<open>the specification's pivot-low detector: the interior positions that pass the test\<close>
  "pivot_lows_spec close k strict =
     map (\<lambda>i. fst (close ! i))
       (filter (\<lambda>i. if strict then strictly_below_neighbours close k i
                     else window_minimum close k i)
          [k ..< length close - k])"

section \<open>Settings (config.py)\<close>

record settings =
  pivot_k :: nat
  lookback_bars :: nat
  ema_period :: int
  use_trend_filter :: bool
  monitor_preload_bars :: int
  monitor_preload_days :: int
  backfill_default_days :: int
  fetch_safety_margin :: real
  data_sufficiency_threshold :: real
  use_parquet_cache :: bool
  data_provider :: string

section \<open>Exponential smoothing\<close>

text \<open>
  \<open>s.ewm(span=p, adjust=False).mean()\<close>: pandas rejects a span below 1 with a ValueError;
  otherwise, with \<open>\<alpha> = 2 / (p + 1)\<close>, the running value is seeded by the first
  observation and updated by \<open>\<alpha> * x + (1 - \<alpha>) * previous\<close>. Leading not-a-number
  entries stay not-a-number; a not-a-number entry after the seed repeats the running value
  and ages its weight \<open>old_wt\<close>.
\<close>

fun ewm_loop :: "real \<Rightarrow> real option \<Rightarrow> real \<Rightarrow> real option list \<Rightarrow> real option list" where
  "ewm_loop \<alpha> weighted old_wt [] = []"
| "ewm_loop \<alpha> weighted old_wt (cur # rest) =
     (case weighted of
        None \<Rightarrow> cur # ewm_loop \<alpha> cur old_wt rest
      | Some w \<Rightarrow>
          (let ow = old_wt * (1 - \<alpha>) in
           case cur of
             None \<Rightarrow> Some w # ewm_loop \<alpha> (Some w) ow rest
           | Some c \<Rightarrow>
               (let w' = (if w \<noteq> c then (ow * w + \<alpha> * c) / (ow + \<alpha>) else w)
                in Some w' # ewm_loop \<alpha> (Some w') 1 rest)))"

definition ewm_mean :: "int \<Rightarrow> real option list \<Rightarrow> error + real option list" where
  "ewm_mean span_n vals =
     (if span_n < 1 then Inl ValueError
      else Inr (case vals of [] \<Rightarrow> []
                | v # rest \<Rightarrow> v # ewm_loop (2 / (of_int span_n + 1)) v 1 rest))"

section \<open>Divergence detection (divergence.py)\<close>

definition ema :: "series \<Rightarrow> int \<Rightarrow> error + real option list" where
  "ema s period = ewm_mean period (map (\<lambda>p. Some (snd p)) s)"

definition bull_trend_ok :: "settings \<Rightarrow> series \<Rightarrow> error + bool" where
  \<comment> \<open>\<open>dropna\<close> removes nothing from a series of finite prices\<close>
  "bull_trend_ok st close =
     (if \<not> use_trend_filter st then Inr True
      else let s = close in
        if int (length s) < ema_period st + 5 then Inr False
        else case ema s (ema_period st) of
               Inl err \<Rightarrow> Inl err
             | Inr e \<Rightarrow> (if s = [] \<or> e = [] then Inl IndexError
                          else Inr (nan_gt (snd (last s)) (last e))))"

definition tail :: "nat \<Rightarrow> 'a list \<Rightarrow> 'a list" where
  \<comment> \<open>\<open>s.tail(n)\<close>: the last n rows, all rows when there are fewer\<close>
  "tail n xs = drop (length xs - n) xs"

definition loc :: "(ts \<times> 'v) list \<Rightarrow> ts \<Rightarrow> error + 'v" where
  \<comment> \<open>\<open>s.loc[t]\<close> used as a scalar: a missing label is a KeyError, a repeated label selects
      several rows, whose comparison has no truth value (ValueError)\<close>
  "loc s t = (case filter (\<lambda>p. fst p = t) s of
                [] \<Rightarrow> Inl KeyError
              | [p] \<Rightarrow> Inr (snd p)
              | _ \<Rightarrow> Inl ValueError)"

definition reindex :: "series \<Rightarrow> ts list \<Rightarrow> error + (ts \<times> real option) list" where
  \<comment> \<open>\<open>ind.reindex(idx)\<close>: a copy when the index is the same, a ValueError when the
      source labels repeat, otherwise a lookup per label, not-a-number where it is absent\<close>
  "reindex ind idx =
     (if map fst ind = idx then Inr (map (\<lambda>p. (fst p, Some (snd p))) ind)
      else if \<not> distinct (map fst ind) then Inl ValueError
      else Inr (map (\<lambda>t. (t, map_of ind t)) idx))"

record detection =
  p1_ts :: ts
  p2_ts :: ts
  price :: real
  indicator_value :: real

definition detect_hidden_bullish ::
  "settings \<Rightarrow> series \<Rightarrow> series \<Rightarrow> nat \<Rightarrow> nat \<Rightarrow> error + detection option" where
  "detect_hidden_bullish st close ind lookback k =
     (let sub_close = tail lookback close in
      case reindex ind (map fst sub_close) of
        Inl err \<Rightarrow> Inl err
      | Inr sub_ind \<Rightarrow>
         (let piv = find_pivot_lows sub_close k True in
          if length piv < 2 then Inr None
          else
            (let p1 = piv ! (length piv - 2); p2 = piv ! (length piv - 1) in
             case loc sub_close p2 of Inl err \<Rightarrow> Inl err | Inr c2 \<Rightarrow>
             case loc sub_close p1 of Inl err \<Rightarrow> Inl err | Inr c1 \<Rightarrow>
             if \<not> c2 > c1 then Inr None
             else
               case loc sub_ind p2 of Inl err \<Rightarrow> Inl err | Inr i2 \<Rightarrow>
               case loc sub_ind p1 of Inl err \<Rightarrow> Inl err | Inr i1 \<Rightarrow>
               (case (i2, i1) of
                  (Some a, Some b) \<Rightarrow>
                    if a < b then
                      (case bull_trend_ok st sub_close of
                         Inl err \<Rightarrow> Inl err
                       | Inr ok \<Rightarrow>
                           if \<not> ok then Inr None
                           else Inr (Some \<lparr>p1_ts = p1, p2_ts = p2, price = c2,
                                            indicator_value = a\<rparr>))
                    else Inr None
                | _ \<Rightarrow> Inr None))))"

text \<open>
  The specification's reading of the detector, on positions of the trailing window (the
  last \<open>lookback\<close> bars): the pivot lows are the interior positions that are strictly
  below their \<open>k\<close> neighbours on each side; there are at least two, of which \<open>p2\<close> is
  the last and \<open>p1\<close> the one before it; the price is higher and the indicator lower at
  \<open>p2\<close>; and the trend gate is open. The gate is open when the filter is disabled and
  closed when the window has fewer than trend-period + 5 bars; otherwise it is what the
  comparison of the latest close with the trailing average says.
\<close>

definition pivot_low_positions_spec :: "series \<Rightarrow> nat \<Rightarrow> nat list" where
  "pivot_low_positions_spec close k =
     filter (strictly_below_neighbours close k) [k ..< length close - k]"

definition indicator_lower :: "series \<Rightarrow> ts \<Rightarrow> ts \<Rightarrow> bool" where
  "indicator_lower ind t2 t1 =
     (case (map_of ind t2, map_of ind t1) of (Some a, Some b) \<Rightarrow> a < b | _ \<Rightarrow> False)"

definition trend_gate_spec :: "settings \<Rightarrow> series \<Rightarrow> bool" where
  "trend_gate_spec st w =
     (if \<not> use_trend_filter st then True
      else if int (length w) < ema_period st + 5 then False
      else bull_trend_ok st w = Inr True)"

definition hidden_bullish_spec ::
  "settings \<Rightarrow> series \<Rightarrow> series \<Rightarrow> nat \<Rightarrow> nat \<Rightarrow> detection option" where
  "hidden_bullish_spec st close ind lookback k =
     (let w = drop (length close - lookback) close;
          ps = pivot_low_positions_spec w k;
          p1 = ps ! (length ps - 2);
          p2 = ps ! (length ps - 1)
      in if 2 \<le> length ps \<and> snd (w ! p1) < snd (w ! p2)
            \<and> indicator_lower ind (fst (w ! p2)) (fst (w ! p1))
            \<and> trend_gate_spec st w
         then Some \<lparr>p1_ts = fst (w ! p1), p2_ts = fst (w ! p2), price = snd (w ! p2),
                     indicator_value = the (map_of ind (fst (w ! p2)))\<rparr>
         else None)"

text \<open>Sample data: the defaults of config.py with a short lookback, and a five-bar window.\<close>

definition sample_settings :: settings where
  "sample_settings =
     \<lparr>pivot_k = 1, lookback_bars = 5, ema_period = 50, use_trend_filter = True,
      monitor_preload_bars = 200, monitor_preload_days = 5, backfill_default_days = 30,
      fetch_safety_margin = 13 / 10,
      data_sufficiency_threshold = 8 / 10, use_parquet_cache = False,
      data_provider = ''alpaca''\<rparr>"

definition sample_close :: series where
  "sample_close = [(1, 5), (2, 1), (3, 5), (4, 2), (5, 5)]"

definition sample_ind :: series where
  "sample_ind = [(1, 50), (2, 40), (3, 50), (4, 30), (5, 50)]"

section \<open>Indicators (indicators/rsi.py, indicators/tsi.py)\<close>

text \<open>
  Element-wise arithmetic on series values keeps not-a-number; \<open>replace(0, nan)\<close> turns a
  zero into not-a-number before it is used as a divisor, so no division by zero is
  ever evaluated.
\<close>

fun diff_from :: "real \<Rightarrow> real list \<Rightarrow> real option list" where
  "diff_from prev [] = []"
| "diff_from prev (x # xs) = Some (x - prev) # diff_from x xs"

definition diff :: "real list \<Rightarrow> real option list" where
  \<comment> \<open>\<open>close.diff()\<close>: the first entry has no predecessor\<close>
  "diff vals = (case vals of [] \<Rightarrow> [] | x # xs \<Rightarrow> None # diff_from x xs)"

definition replace_zero_nan :: "real option \<Rightarrow> real option" where
  "replace_zero_nan v = (case v of Some x \<Rightarrow> (if x = 0 then None else Some x) | None \<Rightarrow> None)"

definition nan_div :: "real option \<Rightarrow> real option \<Rightarrow> real option" where
  \<comment> \<open>the divisor has passed \<open>replace_zero_nan\<close>\<close>
  "nan_div a b = (case (a, b) of (Some x, Some y) \<Rightarrow> Some (x / y) | _ \<Rightarrow> None)"

fun bfill :: "real option list \<Rightarrow> real option list" where
  "bfill [] = []"
| "bfill (x # xs) =
     (let r = bfill xs
      in (case x of Some v \<Rightarrow> Some v
          | None \<Rightarrow> (case r of [] \<Rightarrow> None | y # _ \<Rightarrow> y)) # r)"

definition fillna :: "real \<Rightarrow> real option list \<Rightarrow> real list" where
  "fillna d xs = map (\<lambda>x. case x of None \<Rightarrow> d | Some v \<Rightarrow> v) xs"

definition rsi_gain :: "real option \<Rightarrow> real" where
  \<comment> \<open>\<open>np.where(delta > 0, delta, 0.0)\<close>\<close>
  "rsi_gain d = (case d of Some x \<Rightarrow> (if x > 0 then x else 0) | None \<Rightarrow> 0)"

definition rsi_loss :: "real option \<Rightarrow> real" where
  \<comment> \<open>\<open>np.where(delta < 0, -delta, 0.0)\<close>\<close>
  "rsi_loss d = (case d of Some x \<Rightarrow> (if x < 0 then - x else 0) | None \<Rightarrow> 0)"

definition rsi_value :: "real option \<Rightarrow> real option" where
  \<comment> \<open>\<open>100 - (100 / (1 + rs))\<close>; \<open>rs\<close> is never negative, so \<open>1 + rs\<close> is never zero\<close>
  "rsi_value rs = (case rs of Some r \<Rightarrow> Some (100 - 100 / (1 + r)) | None \<Rightarrow> None)"

definition RSI_compute :: "int \<Rightarrow> series \<Rightarrow> error + series" where
  "RSI_compute period close =
     (let delta = diff (map snd close);
          gain = map rsi_gain delta;
          loss = map rsi_loss delta
      in case ewm_mean period (map Some gain) of
           Inl err \<Rightarrow> Inl err
         | Inr gain_ema \<Rightarrow>
            (case ewm_mean period (map Some loss) of
               Inl err \<Rightarrow> Inl err
             | Inr loss_ema \<Rightarrow>
                (let rs = map2 nan_div gain_ema (map replace_zero_nan loss_ema);
                     rsi = map rsi_value rs
                 in Inr (zip (map fst close) (fillna 50 (bfill rsi))))))"

definition tsi_denominator :: "int \<Rightarrow> int \<Rightarrow> series \<Rightarrow> error + real option list" where
  \<comment> \<open>\<open>ema2_abs_momentum\<close>: the doubly-smoothed absolute momentum\<close>
  "tsi_denominator long short close =
     (let momentum = diff (map snd close);
          abs_momentum = map (map_option abs) momentum
      in case ewm_mean long abs_momentum of
           Inl err \<Rightarrow> Inl err
         | Inr ema1_abs_momentum \<Rightarrow> ewm_mean short ema1_abs_momentum)"

definition TSI_compute :: "int \<Rightarrow> int \<Rightarrow> series \<Rightarrow> error + series" where
  "TSI_compute long short close =
     (let momentum = diff (map snd close) in
      case ewm_mean long momentum of
        Inl err \<Rightarrow> Inl err
      | Inr ema1_momentum \<Rightarrow>
         (case ewm_mean short ema1_momentum of
            Inl err \<Rightarrow> Inl err
          | Inr ema2_momentum \<Rightarrow>
             (case tsi_denominator long short close of
                Inl err \<Rightarrow> Inl err
              | Inr ema2_abs_momentum \<Rightarrow>
                 (let tsi = map (map_option (\<lambda>x. 100 * x))
                              (map2 nan_div ema2_momentum
                                 (map replace_zero_nan ema2_abs_momentum))
                  in Inr (zip (map fst close) (fillna 0 (bfill tsi)))))))"

section \<open>Historical data loader (services/historical_loader.py)\<close>

text \<open>
  A DataFrame of bars is a list of rows in index order. The world holds what the loader
  reads and writes: the bars table (one row per symbol and timestamp), the cache files,
  the provider's answer to a request, a fault for each kind of input or output that may
  raise, and the log of the tiers that were consulted. Timestamps count seconds, so a day
  is 86400. The products with the configured factors (the sufficiency threshold, the
  fetch factor 1.2, the safety margin) are taken in the reals.
\<close>

record bar_row =
  r_ts :: ts
  r_open :: real
  r_high :: real
  r_low :: real
  r_close :: real
  r_volume :: int

type_synonym dataframe = "bar_row list"

datatype event = DbQuery | DbSave | ParquetRead | ParquetSave | ProviderFetch

record world =
  db_bars :: "(string \<times> bar_row) list"
  db_query_fault :: "error option"
  db_save_fault :: "error option"
  parquet_files :: "string \<Rightarrow> dataframe option"
  parquet_read_fault :: "error option"
  parquet_save_fault :: "error option"
  provider_reply :: "string \<Rightarrow> ts \<Rightarrow> ts \<Rightarrow> error + dataframe"
  events :: "event list"

definition py_int :: "real \<Rightarrow> int" where
  \<comment> \<open>\<open>int(x)\<close> truncates toward zero\<close>
  "py_int x = (if 0 \<le> x then \<lfloor>x\<rfloor> else \<lceil>x\<rceil>)"

definition iloc_last :: "int \<Rightarrow> 'a list \<Rightarrow> 'a list" where
  \<comment> \<open>\<open>df.iloc[-n:]\<close>: the last n rows for positive n, every row for n = 0, the rows from
      position \<open>-n\<close> on for negative n\<close>
  "iloc_last n xs = (if 0 < n then drop (length xs - nat n) xs else drop (nat (- n)) xs)"

definition in_range_bars :: "world \<Rightarrow> string \<Rightarrow> ts \<Rightarrow> ts \<Rightarrow> dataframe" where
  \<comment> \<open>the stored bars of a symbol in a time range, oldest first\<close>
  "in_range_bars w symb start_ts end_ts =
     sort_key r_ts
       (map snd (filter (\<lambda>p. fst p = symb \<and> start_ts \<le> r_ts (snd p) \<and> r_ts (snd p) \<le> end_ts)
                   (db_bars w)))"

definition db_select :: "world \<Rightarrow> string \<Rightarrow> ts \<Rightarrow> ts \<Rightarrow> int \<Rightarrow> error + dataframe" where
  \<comment> \<open>\<open>select(Bar).where(...).order_by(Bar.ts.desc()).limit(fetch_limit)\<close>; the database
      rejects a negative limit\<close>
  "db_select w symb start_ts end_ts fetch_limit =
     (case db_query_fault w of
        Some err \<Rightarrow> Inl err
      | None \<Rightarrow>
          if fetch_limit < 0 then Inl IOError
          else Inr (take (nat fetch_limit) (rev (in_range_bars w symb start_ts end_ts))))"

definition load_from_database ::
  "world \<Rightarrow> string \<Rightarrow> int \<Rightarrow> ts \<Rightarrow> ts \<Rightarrow> dataframe \<times> world" where
  "load_from_database w symb limit start_ts end_ts =
     (let w1 = w\<lparr>events := events w @ [DbQuery]\<rparr>;
          fetch_limit = py_int (of_int limit * (12 / 10))
      in case db_select w symb start_ts end_ts fetch_limit of
           Inl err \<Rightarrow> ([], w1)
         | Inr bars \<Rightarrow> if bars = [] then ([], w1) else (rev bars, w1))"

definition load_from_parquet :: "world \<Rightarrow> string \<Rightarrow> ts \<Rightarrow> ts \<Rightarrow> dataframe \<times> world" where
  "load_from_parquet w symb start_ts end_ts =
     (let w1 = w\<lparr>events := events w @ [ParquetRead]\<rparr>
      in case parquet_files w symb of
           None \<Rightarrow> ([], w1)
         | Some df \<Rightarrow>
            (case parquet_read_fault w of
               Some err \<Rightarrow> ([], w1)
             | None \<Rightarrow> (filter (\<lambda>r. start_ts \<le> r_ts r \<and> r_ts r \<le> end_ts) df, w1)))"

definition fetch_from_provider :: "world \<Rightarrow> string \<Rightarrow> ts \<Rightarrow> ts \<Rightarrow> dataframe \<times> world" where
  "fetch_from_provider w symb start_ts end_ts =
     (let w1 = w\<lparr>events := events w @ [ProviderFetch]\<rparr>
      in case provider_reply w symb start_ts end_ts of
           Inl err \<Rightarrow> ([], w1)
         | Inr df \<Rightarrow> (df, w1))"

definition insert_ignore ::
  "string \<Rightarrow> bar_row \<Rightarrow> (string \<times> bar_row) list \<Rightarrow> (string \<times> bar_row) list" where
  \<comment> \<open>\<open>on_conflict_do_nothing(index_elements=['symbol', 'ts'])\<close>\<close>
  "insert_ignore symb r tbl =
     (if \<exists>p \<in> set tbl. fst p = symb \<and> r_ts (snd p) = r_ts r then tbl else tbl @ [(symb, r)])"

definition save_to_database :: "world \<Rightarrow> string \<Rightarrow> dataframe \<Rightarrow> world" where
  "save_to_database w symb df =
     (if df = [] then w
      else let w1 = w\<lparr>events := events w @ [DbSave]\<rparr>
           in case db_save_fault w of
                Some err \<Rightarrow> w1
              | None \<Rightarrow> w1\<lparr>db_bars := fold (insert_ignore symb) df (db_bars w)\<rparr>)"

fun keep_last :: "dataframe \<Rightarrow> dataframe" where
  \<comment> \<open>\<open>df[~df.index.duplicated(keep='last')]\<close>\<close>
  "keep_last [] = []"
| "keep_last (r # rs) = (if r_ts r \<in> r_ts ` set rs then keep_last rs else r # keep_last rs)"

definition save_to_parquet :: "world \<Rightarrow> string \<Rightarrow> dataframe \<Rightarrow> world" where
  "save_to_parquet w symb df =
     (if df = [] then w
      else let w1 = w\<lparr>events := events w @ [ParquetSave]\<rparr>
           in case (case parquet_files w symb of
                      None \<Rightarrow> Inr df
                    | Some existing \<Rightarrow>
                       (case parquet_read_fault w of
                          Some err \<Rightarrow> Inl err
                        | None \<Rightarrow> Inr (sort_key r_ts (keep_last (existing @ df))))) of
                Inl err \<Rightarrow> w1
              | Inr merged \<Rightarrow>
                 (case parquet_save_fault w of
                    Some err \<Rightarrow> w1
                  | None \<Rightarrow> w1\<lparr>parquet_files := (parquet_files w)(symb := Some merged)\<rparr>))"

definition request_limit :: "settings \<Rightarrow> int option \<Rightarrow> string \<Rightarrow> int" where
  "request_limit st limit purpose =
     (case limit of
        Some l \<Rightarrow> l
      | None \<Rightarrow> if purpose = ''research'' then 1000 else monitor_preload_bars st)"

definition request_days :: "settings \<Rightarrow> int option \<Rightarrow> string \<Rightarrow> int" where
  "request_days st days_lookback purpose =
     (case days_lookback of
        Some d \<Rightarrow> d
      | None \<Rightarrow> if purpose = ''monitor'' then monitor_preload_days st
                else if purpose = ''backfill'' then backfill_default_days st
                else if purpose = ''research'' then 30
                else monitor_preload_days st)"

definition request_end :: "ts \<Rightarrow> ts option \<Rightarrow> ts" where
  "request_end now end_opt = (case end_opt of Some e \<Rightarrow> e | None \<Rightarrow> now)"

definition request_start :: "settings \<Rightarrow> ts \<Rightarrow> ts option \<Rightarrow> ts option \<Rightarrow> int option \<Rightarrow> string \<Rightarrow> ts" where
  "request_start st now start_opt end_opt days_lookback purpose =
     (case start_opt of
        Some s \<Rightarrow> s
      | None \<Rightarrow> request_end now end_opt - request_days st days_lookback purpose * 86400)"

definition load_bars ::
  "settings \<Rightarrow> bool \<Rightarrow> world \<Rightarrow> ts \<Rightarrow> string \<Rightarrow> int option \<Rightarrow> ts option \<Rightarrow> ts option
     \<Rightarrow> int option \<Rightarrow> string \<Rightarrow> (error + dataframe) \<times> world" where
  \<comment> \<open>\<open>cache\<close> is the loader's \<open>use_parquet_cache\<close>, \<open>now\<close> the clock reading\<close>
  "load_bars st cache w now symb limit_opt start_opt end_opt days_opt purpose =
     (let limit = request_limit st limit_opt purpose;
          days_lookback = request_days st days_opt purpose;
          end_ts = request_end now end_opt;
          start_ts = request_start st now start_opt end_opt days_opt purpose;
          (df, w1) = load_from_database w symb limit start_ts end_ts;
          required_bars = py_int (of_int limit * data_sufficiency_threshold st)
      in if df \<noteq> [] \<and> required_bars \<le> int (length df) then (Inr (iloc_last limit df), w1)
         else
           (let (df2, w2) = (if cache then load_from_parquet w1 symb start_ts end_ts
                             else ([], w1))
            in if cache \<and> df2 \<noteq> [] \<and> required_bars \<le> int (length df2)
               then (Inr (iloc_last limit df2), save_to_database w2 symb df2)
               else
                 (let extended_start =
                        start_ts - py_int (of_int days_lookback * (fetch_safety_margin st - 1)) * 86400;
                      (df3, w3) = fetch_from_provider w2 symb extended_start end_ts
                  in if df3 = [] then (Inr df3, w3)
                     else
                       (let w4 = save_to_database w3 symb df3;
                            w5 = (if cache then save_to_parquet w4 symb df3 else w4)
                        in (Inr (if limit < int (length df3) then iloc_last limit df3 else df3),
                            w5)))))"

definition sufficient :: "settings \<Rightarrow> int \<Rightarrow> dataframe \<Rightarrow> bool" where
  "sufficient st limit df \<longleftrightarrow>
     df \<noteq> [] \<and> py_int (of_int limit * data_sufficiency_threshold st) \<le> int (length df)"

text \<open>Sample worlds: a store holding \<open>n\<close> one-minute bars of QQQ, no cache file, a provider that fails.\<close>

definition sample_row :: "nat \<Rightarrow> bar_row" where
  "sample_row i = \<lparr>r_ts = 60 * int i, r_open = 1, r_high = 1, r_low = 1, r_close = 1, r_volume = 0\<rparr>"

definition sample_world :: "nat \<Rightarrow> world" where
  "sample_world n =
     \<lparr>db_bars = map (\<lambda>i. (''QQQ'', sample_row i)) [0 ..< n],
      db_query_fault = None, db_save_fault = None,
      parquet_files = (\<lambda>_. None), parquet_read_fault = None, parquet_save_fault = None,
      provider_reply = (\<lambda>_ _ _. Inl IOError),
      events = []\<rparr>"

section \<open>Monitor service (services/monitor_service.py)\<close>

text \<open>
  The service keeps one buffer of bar rows per configured symbol. Processing a bar records
  its time, appends its row to the buffer of its symbol (a KeyError when the symbol has no
  buffer), trims the buffer, and then computes the indicator and runs the detector. The
  state changes made before an exception stay. Saving the bar, saving the signal and the
  broadcast change neither the buffers nor the result and are left out.
\<close>

record feed_bar =
  fb_symbol :: string
  fb_timestamp :: ts
  fb_open :: real
  fb_high :: real
  fb_low :: real
  fb_close :: real
  fb_volume :: int

record service =
  buffers :: "string \<rightharpoonup> dataframe"
  last_bar_time :: "string \<rightharpoonup> ts"
  indicator :: "series \<Rightarrow> error + series"
  detector :: "series \<Rightarrow> series \<Rightarrow> nat \<Rightarrow> nat \<Rightarrow> error + detection option"

definition bar_dict :: "feed_bar \<Rightarrow> bar_row" where
  "bar_dict b = \<lparr>r_ts = fb_timestamp b, r_open = fb_open b, r_high = fb_high b,
                 r_low = fb_low b, r_close = fb_close b, r_volume = fb_volume b\<rparr>"

definition append_trim :: "dataframe \<Rightarrow> bar_row \<Rightarrow> dataframe" where
  \<comment> \<open>\<open>buf.append(bar_dict)\<close>, then \<open>buf = buf[-2200:]\<close> when \<open>len(buf) > 3000\<close>\<close>
  "append_trim buf r =
     (let buf1 = buf @ [r]
      in if 3000 < length buf1 then drop (length buf1 - 2200) buf1 else buf1)"

definition process_bar ::
  "settings \<Rightarrow> service \<Rightarrow> feed_bar \<Rightarrow> (error + detection option) \<times> service" where
  "process_bar st sv b =
     (let symb = fb_symbol b;
          sv1 = sv\<lparr>last_bar_time := (last_bar_time sv)(symb \<mapsto> fb_timestamp b)\<rparr>
      in case buffers sv1 symb of
           None \<Rightarrow> (Inl KeyError, sv1)
         | Some buf \<Rightarrow>
            (let buf2 = append_trim buf (bar_dict b);
                 sv2 = sv1\<lparr>buffers := (buffers sv1)(symb \<mapsto> buf2)\<rparr>
             in if length buf2 < lookback_bars st then (Inr None, sv2)
                else
                  (let close = map (\<lambda>r. (r_ts r, r_close r)) buf2
                   in case indicator sv2 close of
                        Inl err \<Rightarrow> (Inl err, sv2)
                      | Inr ind_values \<Rightarrow>
                          (detector sv2 close ind_values (lookback_bars st) (pivot_k st),
                           sv2))))"

definition on_bar :: "settings \<Rightarrow> service \<Rightarrow> feed_bar \<Rightarrow> service" where
  \<comment> \<open>the feed callback: an exception of \<open>_process_bar\<close> is logged and dropped\<close>
  "on_bar st sv b = snd (process_bar st sv b)"

definition run_feed :: "settings \<Rightarrow> service \<Rightarrow> feed_bar list \<Rightarrow> service" where
  "run_feed st sv bs = fold (\<lambda>b s. on_bar st s b) bs sv"

definition sample_bar :: "nat \<Rightarrow> feed_bar" where
  "sample_bar i = \<lparr>fb_symbol = ''QQQ'', fb_timestamp = 60 * int i, fb_open = 1, fb_high = 1,
                   fb_low = 1, fb_close = 1, fb_volume = 0\<rparr>"

definition sample_service :: "nat \<Rightarrow> service" where
  \<comment> \<open>a service for QQQ whose buffer holds \<open>n\<close> bars\<close>
  "sample_service n =
     \<lparr>buffers = [''QQQ'' \<mapsto> map sample_row [0 ..< n]],
      last_bar_time = Map.empty,
      indicator = RSI_compute 14,
      detector = detect_hidden_bullish sample_settings\<rparr>"

section \<open>Monitor manager (services/monitor_manager.py)\<close>

text \<open>
  The registry maps a key to the task and configuration of a monitor. Tasks are numbered
  in the order of their creation; which tasks are done is the state of the event loop at
  the time of a call and is passed in.
\<close>

record monitor_info =
  mi_task :: nat
  mi_tickers :: "string list"
  mi_indicator :: string
  mi_signal_type :: string

record manager =
  monitors :: "string \<rightharpoonup> monitor_info"
  provider :: "string option"
  next_task :: nat

datatype outcome =
    AlreadyRunning string "string list"
  | StartError
  | Started string "string list" string string

fun join :: "string \<Rightarrow> string list \<Rightarrow> string" where
  "join sep [] = []"
| "join sep [x] = x"
| "join sep (x # y # ys) = x @ sep @ join sep (y # ys)"

definition get_key :: "string list \<Rightarrow> string \<Rightarrow> string \<Rightarrow> string" where
  "get_key tickers indicator_name signal_type =
     join '','' (sort tickers) @ '':'' @ indicator_name @ '':'' @ signal_type"

definition INDICATOR_MAP :: "string list" where
  "INDICATOR_MAP = [''rsi'', ''macd'', ''tsi'']"

definition DETECTOR_MAP :: "string list" where
  "DETECTOR_MAP = [''hidden_bullish_divergence'', ''hidden_bearish_divergence'',
                   ''regular_bullish_divergence'', ''regular_bearish_divergence'']"

definition get_provider :: "settings \<Rightarrow> error + string" where
  "get_provider st =
     (if data_provider st = ''alpaca'' then Inr ''alpaca''
      else if data_provider st = ''polygon'' then Inr ''polygon''
      else Inl ValueError)"

definition start_monitor ::
  "settings \<Rightarrow> (nat \<Rightarrow> bool) \<Rightarrow> manager \<Rightarrow> string list \<Rightarrow> string \<Rightarrow> string
     \<Rightarrow> (error + outcome) \<times> manager" where
  \<comment> \<open>\<open>done t\<close>: task \<open>t\<close> has finished\<close>
  "start_monitor st done m tickers indicator_name signal_type =
     (let key = get_key tickers indicator_name signal_type in
      case (case monitors m key of
              None \<Rightarrow> Inr m
            | Some info \<Rightarrow>
                if \<not> done (mi_task info) then Inl (AlreadyRunning key tickers)
                else Inr (m\<lparr>monitors := (monitors m)(key := None)\<rparr>)) of
        Inl already \<Rightarrow> (Inr already, m)
      | Inr m1 \<Rightarrow>
         (case (case provider m1 of
                  Some p \<Rightarrow> Inr m1
                | None \<Rightarrow> (case get_provider st of
                              Inl err \<Rightarrow> Inl err
                            | Inr p \<Rightarrow> Inr (m1\<lparr>provider := Some p\<rparr>))) of
            Inl err \<Rightarrow> (Inl err, m1)
          | Inr m2 \<Rightarrow>
             if indicator_name \<notin> set INDICATOR_MAP \<or> signal_type \<notin> set DETECTOR_MAP
             then (Inr StartError, m2)
             else
               (let task = next_task m2;
                    info = \<lparr>mi_task = task, mi_tickers = tickers,
                            mi_indicator = indicator_name, mi_signal_type = signal_type\<rparr>
                in (Inr (Started key tickers indicator_name signal_type),
                    m2\<lparr>monitors := (monitors m2)(key \<mapsto> info),
                       next_task := Suc task\<rparr>))))"

definition sample_manager :: manager where
  "sample_manager = \<lparr>monitors = Map.empty, provider = None, next_task = 0\<rparr>"

section \<open>Facts about slices and minima\<close>

lemma series_min_None: "series_min xs = None \<longleftrightarrow> xs = []"
  by (cases xs) (auto split: option.splits)

lemma series_max_None: "series_max xs = None \<longleftrightarrow> xs = []"
  by (cases xs) (auto split: option.splits)

lemma series_min_Some:
  "xs \<noteq> [] \<Longrightarrow> series_min xs = Some (Min (set xs))"
proof (induction xs)
  case Nil
  then show ?case by simp
next
  case (Cons x xs)
  show ?case
  proof (cases "xs = []")
    case True
    then show ?thesis by simp
  next
    case False
    with Cons show ?thesis by (simp add: min.commute)
  qed
qed

lemma series_max_Some:
  "xs \<noteq> [] \<Longrightarrow> series_max xs = Some (Max (set xs))"
proof (induction xs)
  case Nil
  then show ?case by simp
next
  case (Cons x xs)
  show ?case
  proof (cases "xs = []")
    case True
    then show ?thesis by simp
  next
    case False
    with Cons show ?thesis by (simp add: max.commute)
  qed
qed

lemma fold_append_filter:
  "fold (\<lambda>i idxs. if P i then idxs @ [f i] else idxs) xs acc = acc @ map f (filter P xs)"
  by (induction xs arbitrary: acc) simp_all

lemma find_pivot_lows_positions:
  "find_pivot_lows close k strict =
     map (\<lambda>i. fst (close ! i)) (pivot_low_positions close k strict)"
  by (simp add: find_pivot_lows_def pivot_low_positions_def fold_append_filter)

lemma find_pivot_highs_positions:
  "find_pivot_highs close k strict =
     map (\<lambda>i. fst (close ! i)) (pivot_high_positions close k strict)"
  by (simp add: find_pivot_highs_def pivot_high_positions_def fold_append_filter)

lemma nan_eq_min:
  "nan_eq c (series_min xs) \<longleftrightarrow> c \<in> set xs \<and> (\<forall>x \<in> set xs. c \<le> x)"
  by (cases "xs = []") (auto simp: nan_eq_def series_min_Some Min_eq_iff eq_commute[of c])

lemma nan_lt_min:
  "nan_lt c (series_min xs) \<longleftrightarrow> xs \<noteq> [] \<and> (\<forall>x \<in> set xs. c < x)"
  by (cases "xs = []") (auto simp: nan_lt_def series_min_Some)

lemma nan_eq_max:
  "nan_eq c (series_max xs) \<longleftrightarrow> c \<in> set xs \<and> (\<forall>x \<in> set xs. x \<le> c)"
  by (cases "xs = []") (auto simp: nan_eq_def series_max_Some Max_eq_iff eq_commute[of c])

lemma nan_gt_max:
  "nan_gt c (series_max xs) \<longleftrightarrow> xs \<noteq> [] \<and> (\<forall>x \<in> set xs. x < c)"
  by (cases "xs = []") (auto simp: nan_gt_def series_max_Some)

lemma iloc_slice_vals:
  assumes "b \<le> length close"
  shows "iloc_slice (map snd close) a b = map (\<lambda>j. snd (close ! j)) [a ..< b]"
proof (rule nth_equalityI)
  show "length (iloc_slice (map snd close) a b) = length (map (\<lambda>j. snd (close ! j)) [a ..< b])"
    using assms by (simp add: iloc_slice_def)
next
  fix i assume "i < length (iloc_slice (map snd close) a b)"
  then show "iloc_slice (map snd close) a b ! i = map (\<lambda>j. snd (close ! j)) [a ..< b] ! i"
    using assms by (simp add: iloc_slice_def)
qed

lemma nan_eq_min_map:
  "i \<in> set js \<Longrightarrow> nan_eq (f i) (series_min (map f js)) \<longleftrightarrow> (\<forall>j \<in> set js. f i \<le> f j)"
  by (auto simp: nan_eq_min)

lemma nan_lt_min_map:
  "nan_lt c (series_min (map f js)) \<longleftrightarrow> js \<noteq> [] \<and> (\<forall>j \<in> set js. c < f j)"
  by (auto simp: nan_lt_min)

lemma nan_eq_max_map:
  "i \<in> set js \<Longrightarrow> nan_eq (f i) (series_max (map f js)) \<longleftrightarrow> (\<forall>j \<in> set js. f j \<le> f i)"
  by (auto simp: nan_eq_max)

lemma nan_gt_max_map:
  "nan_gt c (series_max (map f js)) \<longleftrightarrow> js \<noteq> [] \<and> (\<forall>j \<in> set js. f j < c)"
  by (auto simp: nan_gt_max)

lemma pivot_low_at_nonstrict:
  assumes "k \<le> i" "i + k < length close"
  shows "pivot_low_at close k False i \<longleftrightarrow> window_minimum close k i"
proof -
  have w: "iloc_slice (map snd close) (i - k) (i + k + 1) = map (\<lambda>j. snd (close ! j)) [i - k ..< i + k + 1]"
    using assms by (intro iloc_slice_vals) simp
  have c: "map snd close ! i = snd (close ! i)" using assms by simp
  have mem: "i \<in> set [i - k ..< i + k + 1]" using assms by auto
  show ?thesis
    unfolding pivot_low_at_def Let_def w c window_minimum_def
    by (simp only: nan_eq_min_map[where f = "\<lambda>j. snd (close ! j)", OF mem] if_True if_False
        not_False_eq_True if_bool_eq_conj simp_thms)
qed

lemma pivot_low_at_strict:
  assumes "k \<le> i" "i + k < length close" "1 \<le> k"
  shows "pivot_low_at close k True i \<longleftrightarrow> strictly_below_neighbours close k i"
proof -
  have w: "iloc_slice (map snd close) (i - k) (i + k + 1) = map (\<lambda>j. snd (close ! j)) [i - k ..< i + k + 1]"
    using assms by (intro iloc_slice_vals) simp
  have l: "iloc_slice (map snd close) (i - k) i = map (\<lambda>j. snd (close ! j)) [i - k ..< i]"
    using assms by (intro iloc_slice_vals) simp
  have r: "iloc_slice (map snd close) (i + 1) (i + k + 1) = map (\<lambda>j. snd (close ! j)) [i + 1 ..< i + k + 1]"
    using assms by (intro iloc_slice_vals) simp
  have c: "map snd close ! i = snd (close ! i)" using assms by simp
  have mem: "i \<in> set [i - k ..< i + k + 1]" using assms by auto
  have ne: "[i - k ..< i] \<noteq> []" "[i + 1 ..< i + k + 1] \<noteq> []" using assms by simp_all
  have wm: "window_minimum close k i" if h: "strictly_below_neighbours close k i"
    unfolding window_minimum_def
  proof
    fix j assume "j \<in> set [i - k ..< i + k + 1]"
    then consider "j \<in> set [i - k ..< i]" | "j = i" | "j \<in> set [i + 1 ..< i + k + 1]"
      by fastforce
    then show "snd (close ! i) \<le> snd (close ! j)"
    proof cases
      case 1
      with h show ?thesis unfolding strictly_below_neighbours_def by (blast intro: less_imp_le)
    next
      case 2
      then show ?thesis by simp
    next
      case 3
      with h show ?thesis unfolding strictly_below_neighbours_def by (blast intro: less_imp_le)
    qed
  qed
  have "pivot_low_at close k True i \<longleftrightarrow>
      window_minimum close k i \<and> strictly_below_neighbours close k i"
    unfolding pivot_low_at_def Let_def w l r c window_minimum_def strictly_below_neighbours_def
    by (simp only: nan_eq_min_map[where f = "\<lambda>j. snd (close ! j)", OF mem] nan_lt_min_map ne
        not_True_eq_False if_True if_False not_False_eq_True if_bool_eq_conj simp_thms) blast
  then show ?thesis using wm by blast
qed

lemma pivot_high_at_imp: "pivot_high_at close k True i \<Longrightarrow> pivot_high_at close k False i"
  by (simp add: pivot_high_at_def Let_def split: if_splits)

lemma pivot_low_at_imp: "pivot_low_at close k True i \<Longrightarrow> pivot_low_at close k False i"
  by (simp add: pivot_low_at_def Let_def split: if_splits)


section \<open>Pivot detection: results\<close>

text \<open>
  C2 (amended). For every series and every window size \<open>k \<ge> 1\<close> (and for \<open>k = 0\<close>
  when strict is false), pivot-low detection returns exactly the index labels of the
  interior positions \<open>i\<close> in \<open>[k, n - k)\<close> whose value equals the minimum of the window
  \<open>[i - k, i + k]\<close> (strict false), or is strictly less than each of the \<open>k\<close> values
  before and each of the \<open>k\<close> values after (strict true); every selected position has
  \<open>k\<close> positions before it and \<open>k\<close> after it.
\<close>

theorem find_pivot_lows_spec:
  assumes "1 \<le> k \<or> \<not> strict"
  shows "find_pivot_lows close k strict = pivot_lows_spec close k strict \<and>
         (\<forall>i \<in> set (pivot_low_positions close k strict). k \<le> i \<and> i + k < length close)"
proof -
  have "pivot_low_at close k strict i \<longleftrightarrow>
        (if strict then strictly_below_neighbours close k i else window_minimum close k i)"
    if "i \<in> set [k ..< length close - k]" for i
  proof -
    from that have r: "k \<le> i" "i + k < length close" by auto
    show ?thesis
    proof (cases strict)
      case True
      with assms have "1 \<le> k" by simp
      with r True show ?thesis by (simp add: pivot_low_at_strict)
    next
      case False
      with r show ?thesis by (simp add: pivot_low_at_nonstrict)
    qed
  qed
  then have "pivot_low_positions close k strict =
      filter (\<lambda>i. if strict then strictly_below_neighbours close k i
                    else window_minimum close k i) [k ..< length close - k]"
    unfolding pivot_low_positions_def by (intro filter_cong) simp_all
  then have "find_pivot_lows close k strict = pivot_lows_spec close k strict"
    by (simp only: find_pivot_lows_positions pivot_lows_spec_def)
  moreover have "\<forall>i \<in> set (pivot_low_positions close k strict). k \<le> i \<and> i + k < length close"
    by (auto simp: pivot_low_positions_def)
  ultimately show ?thesis by blast
qed

theorem find_pivot_lows_spec_witness:
  "find_pivot_lows [(10, 3), (20, 1), (30, 2)] 1 True = [20] \<and>
   pivot_lows_spec [(10, 3), (20, 1), (30, 2)] 1 True = [20]"
  using find_pivot_lows_spec [of 1 True "[(10, 3), (20, 1), (30, 2)]"]
  by (simp add: pivot_lows_spec_def strictly_below_neighbours_def)

text \<open>
  C2 as stated fails for the window size \<open>k = 0\<close> with strict true: no value lies before
  or after position 0, so the strict test of the claim holds there, but the minimum of an
  empty slice is not-a-number and the comparison with it is false, so nothing is returned.
\<close>

theorem find_pivot_lows_zero_window_counterexample:
  "find_pivot_lows [(10, 3)] 0 True = [] \<and> pivot_lows_spec [(10, 3)] 0 True = [10]"
  by (simp add: find_pivot_lows_def pivot_low_at_def iloc_slice_def nan_eq_def nan_lt_def
      pivot_lows_spec_def strictly_below_neighbours_def)

text \<open>
  C10. For every series, every window size and both pivot kinds, the positions selected with
  strict true are among those selected with strict false, and the labels returned with
  strict true are a subsequence of those returned with strict false.
\<close>

theorem strict_pivots_subset:
  "set (pivot_low_positions close k True) \<subseteq> set (pivot_low_positions close k False) \<and>
   set (pivot_high_positions close k True) \<subseteq> set (pivot_high_positions close k False) \<and>
   subseq (find_pivot_lows close k True) (find_pivot_lows close k False) \<and>
   subseq (find_pivot_highs close k True) (find_pivot_highs close k False)"
proof -
  let ?r = "[k ..< length close - k]"
  have lo: "filter (pivot_low_at close k True) ?r =
            filter (pivot_low_at close k True) (filter (pivot_low_at close k False) ?r)"
    by (auto simp: filter_filter intro!: filter_cong dest: pivot_low_at_imp)
  have hi: "filter (pivot_high_at close k True) ?r =
            filter (pivot_high_at close k True) (filter (pivot_high_at close k False) ?r)"
    by (auto simp: filter_filter intro!: filter_cong dest: pivot_high_at_imp)
  have "subseq (pivot_low_positions close k True) (pivot_low_positions close k False)"
    unfolding pivot_low_positions_def by (subst lo) (rule subseq_filter_left)
  moreover have "subseq (pivot_high_positions close k True) (pivot_high_positions close k False)"
    unfolding pivot_high_positions_def by (subst hi) (rule subseq_filter_left)
  moreover have "set (pivot_low_positions close k True) \<subseteq> set (pivot_low_positions close k False)"
    unfolding pivot_low_positions_def by (auto dest: pivot_low_at_imp)
  moreover have "set (pivot_high_positions close k True) \<subseteq> set (pivot_high_positions close k False)"
    unfolding pivot_high_positions_def by (auto dest: pivot_high_at_imp)
  ultimately show ?thesis
    unfolding find_pivot_lows_positions find_pivot_highs_positions
    by (simp add: subseq_map)
qed

theorem strict_pivots_subset_witness:
  "find_pivot_lows [(10, 3), (20, 1), (30, 1), (40, 3)] 1 True = [] \<and>
   find_pivot_lows [(10, 3), (20, 1), (30, 1), (40, 3)] 1 False = [20, 30] \<and>
   subseq (find_pivot_lows [(10, 3), (20, 1), (30, 1), (40, 3)] 1 True)
          (find_pivot_lows [(10, 3), (20, 1), (30, 1), (40, 3)] 1 False)"
  using strict_pivots_subset [of "[(10, 3), (20, 1), (30, 1), (40, 3)]" 1]
  by (simp add: find_pivot_lows_def pivot_low_at_def iloc_slice_def nan_eq_def nan_lt_def)

section \<open>Divergence detection: results\<close>


lemma loc_distinct:
  "distinct (map fst s) \<Longrightarrow> i < length s \<Longrightarrow> loc s (fst (s ! i)) = Inr (snd (s ! i))"
proof -
  assume d: "distinct (map fst s)" and i: "i < length s"
  have "filter (\<lambda>p. fst p = fst (s ! i)) s = [s ! i]"
    using d i
  proof (induction s arbitrary: i)
    case Nil
    then show ?case by simp
  next
    case (Cons x xs)
    show ?case
    proof (cases i)
      case 0
      have "filter (\<lambda>p. fst p = fst x) xs = []"
        using Cons.prems(1) by (auto simp: filter_empty_conv image_iff)
      with 0 show ?thesis by simp
    next
      case (Suc j)
      with Cons.prems have j: "j < length xs" and dx: "distinct (map fst xs)" by simp_all
      have "fst (xs ! j) \<in> set (map fst xs)" using j by simp
      moreover have "fst x \<notin> set (map fst xs)" using Cons.prems(1) by simp
      ultimately have "fst x \<noteq> fst (xs ! j)" by metis
      with Suc Cons.IH[OF dx j] show ?thesis by simp
    qed
  qed
  then show ?thesis by (simp add: loc_def)
qed

lemma length_ewm_loop: "length (ewm_loop a w ow xs) = length xs"
  by (induction xs arbitrary: w ow) (auto split: option.splits simp: Let_def)

lemma ema_ok: "1 \<le> p \<Longrightarrow> \<exists>e. ema s p = Inr e \<and> length e = length s"
  by (auto simp: ema_def ewm_mean_def length_ewm_loop split: list.splits)

lemma bull_trend_ok_total:
  assumes "use_trend_filter st \<longrightarrow> 1 \<le> ema_period st"
  shows "\<exists>b. bull_trend_ok st w = Inr b"
proof (cases "use_trend_filter st \<and> \<not> int (length w) < ema_period st + 5")
  case True
  with assms have p: "1 \<le> ema_period st" by simp
  from ema_ok[OF p] obtain e where e: "ema w (ema_period st) = Inr e" "length e = length w"
    by blast
  from True p have "w \<noteq> []" by auto
  with e True show ?thesis by (auto simp: bull_trend_ok_def Let_def)
next
  case False
  then show ?thesis by (auto simp: bull_trend_ok_def Let_def)
qed

lemma reindex_distinct:
  assumes "distinct (map fst ind)"
  shows "\<exists>si. reindex ind idx = Inr si \<and> map fst si = idx \<and> (\<forall>t \<in> set idx. \<forall>v. (t, v) \<in> set si \<longrightarrow> v = map_of ind t)"
proof (cases "map fst ind = idx")
  case True
  have "v = map_of ind t" if "(t, v) \<in> set (map (\<lambda>p. (fst p, Some (snd p))) ind)" for t v
  proof -
    from that obtain x where "(t, x) \<in> set ind" "v = Some x" by auto
    with assms show ?thesis by simp
  qed
  with True show ?thesis by (auto simp: reindex_def comp_def)
next
  case False
  with assms show ?thesis by (auto simp: reindex_def comp_def)
qed

lemma sorted_positions: "sorted_wrt (<) (pivot_low_positions w k strict)"
  unfolding pivot_low_positions_def by (simp add: sorted_wrt_filter)

lemma loc_reindex:
  assumes "distinct (map fst ind)" "distinct idx" "reindex ind idx = Inr si" "t \<in> set idx"
  shows "loc si t = Inr (map_of ind t)"
proof -
  from reindex_distinct[OF assms(1), of idx] assms(3)
  have m: "map fst si = idx" and v: "\<And>t v. t \<in> set idx \<Longrightarrow> (t, v) \<in> set si \<Longrightarrow> v = map_of ind t"
    by auto
  from assms(4) m obtain i where i: "i < length si" "fst (si ! i) = t"
    by (metis in_set_conv_nth length_map nth_map)
  have d: "distinct (map fst si)" using m assms(2) by simp
  have "(t, snd (si ! i)) \<in> set si" using i by (metis nth_mem prod.collapse)
  with v assms(4) have "snd (si ! i) = map_of ind t" by blast
  with loc_distinct[OF d i(1)] i(2) show ?thesis by simp
qed

lemma tail_distinct: "distinct (map fst close) \<Longrightarrow> distinct (map fst (tail n close))"
  by (simp add: tail_def drop_map[symmetric] del: drop_map)

lemma position_bound: "p \<in> set (pivot_low_positions w k strict) \<Longrightarrow> p < length w"
  by (auto simp: pivot_low_positions_def)

lemma detect_hidden_bullish_unfold:
  assumes "distinct (map fst close)" and "distinct (map fst ind)"
  shows "detect_hidden_bullish st close ind lookback k =
    (let w = tail lookback close;
         ps = pivot_low_positions w k True;
         p1 = ps ! (length ps - 2);
         p2 = ps ! (length ps - 1)
     in if 2 \<le> length ps \<and> snd (w ! p1) < snd (w ! p2)
           \<and> indicator_lower ind (fst (w ! p2)) (fst (w ! p1))
        then (case bull_trend_ok st w of
                Inl err \<Rightarrow> Inl err
              | Inr ok \<Rightarrow>
                  Inr (if ok then Some \<lparr>p1_ts = fst (w ! p1), p2_ts = fst (w ! p2),
                                         price = snd (w ! p2),
                                         indicator_value = the (map_of ind (fst (w ! p2)))\<rparr>
                       else None))
        else Inr None)"
proof -
  define w where "w = tail lookback close"
  define ps where "ps = pivot_low_positions w k True"
  define p1 where "p1 = ps ! (length ps - 2)"
  define p2 where "p2 = ps ! (length ps - 1)"
  have dw: "distinct (map fst w)" unfolding w_def using assms(1) by (rule tail_distinct)
  obtain si where si: "reindex ind (map fst w) = Inr si"
    using reindex_distinct[OF assms(2)] by blast
  have piv: "find_pivot_lows w k True = map (\<lambda>i. fst (w ! i)) ps"
    by (simp add: find_pivot_lows_positions ps_def)
  show ?thesis
  proof (cases "length ps < 2")
    case True
    then show ?thesis
      unfolding detect_hidden_bullish_def Let_def w_def[symmetric] si piv ps_def[symmetric]
      by simp
  next
    case False
    then have mem: "p1 \<in> set ps" "p2 \<in> set ps" by (simp_all add: p1_def p2_def)
    then have b: "p1 < length w" "p2 < length w" by (auto simp: ps_def dest: position_bound)
    have l1: "map (\<lambda>i. fst (w ! i)) ps ! (length ps - 2) = fst (w ! p1)"
      and l2: "map (\<lambda>i. fst (w ! i)) ps ! (length ps - 1) = fst (w ! p2)"
      using False by (simp_all add: p1_def p2_def)
    have c1: "loc w (fst (w ! p1)) = Inr (snd (w ! p1))"
      and c2: "loc w (fst (w ! p2)) = Inr (snd (w ! p2))"
      using dw b by (simp_all add: loc_distinct)
    have i1: "loc si (fst (w ! p1)) = Inr (map_of ind (fst (w ! p1)))"
      and i2: "loc si (fst (w ! p2)) = Inr (map_of ind (fst (w ! p2)))"
      using b by (auto intro!: loc_reindex[OF assms(2) dw si])
    show ?thesis
      unfolding detect_hidden_bullish_def Let_def
        w_def[symmetric] si piv ps_def[symmetric] length_map l1 l2
        p1_def[symmetric] p2_def[symmetric]
      using False
      by (simp add: c1 c2 i1 i2 indicator_lower_def split: option.splits sum.splits)
  qed
qed

lemma pivot_low_positions_strict:
  assumes "1 \<le> k"
  shows "pivot_low_positions w k True = pivot_low_positions_spec w k"
  unfolding pivot_low_positions_def pivot_low_positions_spec_def
proof (rule filter_cong[OF refl])
  fix i assume "i \<in> set [k ..< length w - k]"
  then have "k \<le> i" "i + k < length w" by auto
  with assms show "pivot_low_at w k True i = strictly_below_neighbours w k i"
    by (simp add: pivot_low_at_strict)
qed

lemma trend_gate_spec_eq: "trend_gate_spec st w \<longleftrightarrow> bull_trend_ok st w = Inr True"
  by (simp add: trend_gate_spec_def bull_trend_ok_def)

text \<open>
  C1 (amended). For price and indicator series with unique timestamps and every window
  size \<open>k \<ge> 1\<close>, \<open>detect_hidden_bullish\<close> returns a detection exactly when the trailing
  lookback window has at least two pivot lows (positions strictly below their \<open>k\<close>
  neighbours on each side), the price at the last pivot \<open>p2\<close> is above the price at the
  pivot \<open>p1\<close> before it, the indicator at \<open>p2\<close> is below the indicator at \<open>p1\<close>, and
  the trend gate is open; the record carries the timestamps of \<open>p1\<close> and \<open>p2\<close> and
  the price and indicator value at \<open>p2\<close>. The gate is open when the trend filter is
  disabled; when it is enabled and the window has fewer than trend-period + 5 bars, the
  gate is closed and the result is no detection, not an error.
\<close>

theorem detect_hidden_bullish_spec:
  assumes "distinct (map fst close)" and "distinct (map fst ind)" and "1 \<le> k"
  shows "(detect_hidden_bullish st close ind lookback k = Inr (Some r) \<longleftrightarrow>
            hidden_bullish_spec st close ind lookback k = Some r) \<and>
         sorted_wrt (<) (pivot_low_positions_spec (tail lookback close) k) \<and>
         (\<not> use_trend_filter st \<longrightarrow>
            bull_trend_ok st (tail lookback close) = Inr True \<and>
            detect_hidden_bullish st close ind lookback k =
              Inr (hidden_bullish_spec st close ind lookback k)) \<and>
         (use_trend_filter st \<and> int (length (tail lookback close)) < ema_period st + 5 \<longrightarrow>
            bull_trend_ok st (tail lookback close) = Inr False \<and>
            detect_hidden_bullish st close ind lookback k = Inr None)"
proof -
  note u = detect_hidden_bullish_unfold[OF assms(1,2), of st lookback k]
  note ps = pivot_low_positions_strict[OF assms(3), of "tail lookback close"]
  have w: "drop (length close - lookback) close = tail lookback close"
    by (simp add: tail_def)
  have "detect_hidden_bullish st close ind lookback k = Inr (Some r) \<longleftrightarrow>
            hidden_bullish_spec st close ind lookback k = Some r"
    unfolding u hidden_bullish_spec_def Let_def w ps trend_gate_spec_eq
    by (auto split: sum.splits)
  moreover have "sorted_wrt (<) (pivot_low_positions_spec (tail lookback close) k)"
    unfolding ps[symmetric] by (rule sorted_positions)
  moreover have "bull_trend_ok st (tail lookback close) = Inr True \<and>
            detect_hidden_bullish st close ind lookback k =
              Inr (hidden_bullish_spec st close ind lookback k)" if "\<not> use_trend_filter st"
  proof -
    from that have g: "bull_trend_ok st (tail lookback close) = Inr True"
      by (simp add: bull_trend_ok_def)
    then show ?thesis
      unfolding u hidden_bullish_spec_def Let_def w ps trend_gate_spec_eq by simp
  qed
  moreover have "bull_trend_ok st (tail lookback close) = Inr False \<and>
            detect_hidden_bullish st close ind lookback k = Inr None"
    if "use_trend_filter st \<and> int (length (tail lookback close)) < ema_period st + 5"
  proof -
    from that have g: "bull_trend_ok st (tail lookback close) = Inr False"
      by (simp add: bull_trend_ok_def)
    then show ?thesis unfolding u Let_def by simp
  qed
  ultimately show ?thesis by blast
qed

theorem detect_hidden_bullish_spec_witness:
  "distinct (map fst sample_close) \<and> distinct (map fst sample_ind) \<and>
   detect_hidden_bullish (sample_settings\<lparr>use_trend_filter := False\<rparr>)
     sample_close sample_ind 5 1
   = Inr (Some \<lparr>p1_ts = 2, p2_ts = 4, price = 2, indicator_value = 30\<rparr>) \<and>
   detect_hidden_bullish sample_settings sample_close sample_ind 5 1 = Inr None"
proof -
  have d: "distinct (map fst sample_close)" "distinct (map fst sample_ind)"
    by (simp_all add: sample_close_def sample_ind_def)
  have k: "1 \<le> (1::nat)" by simp
  have s: "hidden_bullish_spec (sample_settings\<lparr>use_trend_filter := False\<rparr>)
      sample_close sample_ind 5 1
    = Some \<lparr>p1_ts = 2, p2_ts = 4, price = 2, indicator_value = 30\<rparr>"
    by (simp add: hidden_bullish_spec_def pivot_low_positions_spec_def
      strictly_below_neighbours_def indicator_lower_def trend_gate_spec_def
      sample_close_def sample_ind_def sample_settings_def)
  have l: "int (length (tail 5 sample_close)) < ema_period sample_settings + 5"
    by (simp add: tail_def sample_close_def sample_settings_def)
  have f: "use_trend_filter sample_settings"
    "\<not> use_trend_filter (sample_settings\<lparr>use_trend_filter := False\<rparr>)"
    by (simp_all add: sample_settings_def)
  show ?thesis
    using detect_hidden_bullish_spec [OF d k, of "sample_settings\<lparr>use_trend_filter := False\<rparr>" 5]
      detect_hidden_bullish_spec [OF d k, of sample_settings 5] d s l f
    by simp
qed

text \<open>
  C1 as stated fails in two ways. With the window size \<open>k = 0\<close> every position of the
  window 1, 2 is a pivot low of the specification, the price rises and the indicator
  falls, yet the detector finds no pivot (its strict test compares with the minimum of an
  empty slice) and returns no detection. With an indicator series in which the timestamp
  2 occurs twice, the conditions hold on the five-bar sample, yet aligning the indicator
  raises a ValueError and no detection is returned.
\<close>

theorem detect_hidden_bullish_counterexample:
  "detect_hidden_bullish (sample_settings\<lparr>use_trend_filter := False\<rparr>)
     [(1, 1), (2, 2)] [(1, 50), (2, 40)] 2 0 = Inr None \<and>
   hidden_bullish_spec (sample_settings\<lparr>use_trend_filter := False\<rparr>)
     [(1, 1), (2, 2)] [(1, 50), (2, 40)] 2 0
     = Some \<lparr>p1_ts = 1, p2_ts = 2, price = 2, indicator_value = 40\<rparr> \<and>
   detect_hidden_bullish (sample_settings\<lparr>use_trend_filter := False\<rparr>)
     sample_close [(1, 50), (2, 40), (2, 45), (3, 50), (4, 30), (5, 50)] 5 1 = Inl ValueError \<and>
   hidden_bullish_spec (sample_settings\<lparr>use_trend_filter := False\<rparr>)
     sample_close [(1, 50), (2, 40), (2, 45), (3, 50), (4, 30), (5, 50)] 5 1
     = Some \<lparr>p1_ts = 2, p2_ts = 4, price = 2, indicator_value = 30\<rparr>"
  by (simp add: detect_hidden_bullish_def hidden_bullish_spec_def tail_def reindex_def
      find_pivot_lows_def pivot_low_at_def iloc_slice_def nan_eq_def nan_lt_def
      pivot_low_positions_spec_def strictly_below_neighbours_def indicator_lower_def
      trend_gate_spec_def sample_close_def sample_settings_def)

section \<open>Indicators: results\<close>

text \<open>
  C3 (the code departs from the claim). On the rising series 1, 2, 3 every price change
  is non-negative, so the smoothed loss is 0 at every position and the claim (like the
  docstring of \<open>RSI.compute\<close>) gives the value 100. The code replaces the zero loss by
  not-a-number, finds no later value to fill backward from, and returns the default 50.
\<close>

theorem RSI_rising_series_is_50:
  "RSI_compute 14 [(1, 1), (2, 2), (3, 3)] = Inr [(1, 50), (2, 50), (3, 50)]"
  by (simp add: RSI_compute_def diff_def rsi_gain_def rsi_loss_def ewm_mean_def nan_div_def
      replace_zero_nan_def rsi_value_def fillna_def)

text \<open>
  C4 (the code departs from the claim). On the series 1, 1, 2 the doubly-smoothed absolute
  momentum is undefined at the first position and 0 at the second; the claim (like the
  comment in \<open>TSI.compute\<close>) gives the value 0 at both. The code fills backward before
  it fills with 0, so both positions take the later value 100.
\<close>

theorem TSI_zero_denominator_backfilled:
  "tsi_denominator 25 13 [(1, 1), (2, 1), (3, 2)] = Inr [None, Some 0, Some (1 / 91)] \<and>
   TSI_compute 25 13 [(1, 1), (2, 1), (3, 2)] = Inr [(1, 100), (2, 100), (3, 100)]"
  by (simp add: TSI_compute_def tsi_denominator_def diff_def ewm_mean_def nan_div_def
      replace_zero_nan_def fillna_def)

section \<open>Historical data loader: results\<close>



lemma py_int_mono: "x \<le> y \<Longrightarrow> py_int x \<le> py_int y"
  unfolding py_int_def
  by (smt (verit) ceiling_mono floor_mono ceiling_le_zero zero_le_floor floor_le_ceiling of_int_0)

lemma py_int_le_ceiling: "py_int x \<le> \<lceil>x\<rceil>"
  unfolding py_int_def by (simp add: floor_le_ceiling)

lemma py_int_ge: "1 \<le> T \<Longrightarrow> T \<le> py_int (of_int T * (12 / 10))"
proof -
  assume "1 \<le> T"
  then have "(of_int T :: real) \<le> of_int T * (12 / 10)" by simp
  then have "T \<le> \<lfloor>(of_int T :: real) * (12 / 10)\<rfloor>" by (simp add: le_floor_iff)
  moreover have "0 \<le> (of_int T :: real) * (12 / 10)" using \<open>1 \<le> T\<close> by simp
  ultimately show ?thesis by (simp add: py_int_def)
qed

lemma drop_drop_last:
  assumes "T \<le> fl"
  shows "drop (length (drop (length xs - fl) xs) - T) (drop (length xs - fl) xs) = drop (length xs - T) xs"
  using assms by (cases "length xs \<le> fl") (auto simp: min_def)

lemma load_from_database_ok:
  assumes "db_query_fault w = None" "1 \<le> T"
  shows "load_from_database w symb T start_ts end_ts =
     (drop (length (in_range_bars w symb start_ts end_ts) - nat (py_int (of_int T * (12 / 10))))
        (in_range_bars w symb start_ts end_ts),
      w\<lparr>events := events w @ [DbQuery]\<rparr>)"
proof -
  let ?st = "in_range_bars w symb start_ts end_ts"
  let ?fl = "py_int (of_int T * (12 / 10))"
  have fl: "T \<le> ?fl" using assms(2) by (rule py_int_ge)
  then have nn: "\<not> ?fl < 0" using assms(2) by linarith
  have r: "rev (take (nat ?fl) (rev ?st)) = drop (length ?st - nat ?fl) ?st"
    by (simp add: rev_take)
  have e: "take (nat ?fl) (rev ?st) = [] \<longleftrightarrow> drop (length ?st - nat ?fl) ?st = []"
    by (metis r rev_is_Nil_conv)
  show ?thesis
    unfolding load_from_database_def db_select_def Let_def
    using assms(1) nn r e by (auto simp del: take_eq_Nil drop_eq_Nil)
qed

lemma load_from_database_length:
  "length (fst (load_from_database w symb T start_ts end_ts))
     \<le> length (in_range_bars w symb start_ts end_ts)"
  by (simp add: load_from_database_def db_select_def Let_def split: sum.splits option.splits)

text \<open>
  C5 (amended). For every load request with target count \<open>T \<ge> 1\<close> and sufficiency
  threshold \<open>s \<le> 1.2\<close>, whenever the store query succeeds and the store holds at least
  one and at least \<open>ceil(T * s)\<close> bars of the symbol in the requested range, \<open>load_bars\<close>
  returns the most recent \<open>T\<close> of those bars, oldest first, and consults neither the file
  cache nor the provider (the only logged event is the store query, and nothing is
  written). When the store holds fewer than \<open>int(T * s)\<close> bars, the next tier is consulted.
  With \<open>T = 100\<close> and \<open>s = 0.8\<close>, 85 stored bars are returned directly and 50 are not.
\<close>

theorem load_bars_store_sufficient:
  assumes "1 \<le> request_limit st limit_opt purpose"
    and "data_sufficiency_threshold st \<le> 12 / 10"
    and "db_query_fault w = None"
  shows "(let T = request_limit st limit_opt purpose;
              stored = in_range_bars w symb
                         (request_start st now start_opt end_opt days_opt purpose)
                         (request_end now end_opt);
              res = load_bars st cache w now symb limit_opt start_opt end_opt days_opt purpose
          in (stored \<noteq> [] \<and>
              \<lceil>of_int T * data_sufficiency_threshold st\<rceil> \<le> int (length stored) \<longrightarrow>
                res = (Inr (drop (length stored - nat T) stored),
                       w\<lparr>events := events w @ [DbQuery]\<rparr>)) \<and>
             (int (length stored) < py_int (of_int T * data_sufficiency_threshold st) \<longrightarrow>
                (\<exists>rest. events (snd res) =
                   events w @ [DbQuery, if cache then ParquetRead else ProviderFetch] @ rest)))"
proof -
  define T where "T = request_limit st limit_opt purpose"
  define s where "s = data_sufficiency_threshold st"
  define a where "a = request_start st now start_opt end_opt days_opt purpose"
  define b where "b = request_end now end_opt"
  define stored where "stored = in_range_bars w symb a b"
  define fl where "fl = py_int (of_int T * (12 / 10))"
  define w1 where "w1 = w\<lparr>events := events w @ [DbQuery]\<rparr>"
  have T1: "1 \<le> T" using assms(1) by (simp add: T_def)
  have flT: "T \<le> fl" unfolding fl_def using T1 by (rule py_int_ge)
  have db: "load_from_database w symb T a b = (drop (length stored - nat fl) stored, w1)"
    unfolding stored_def fl_def w1_def using assms(3) T1 by (rule load_from_database_ok)
  have first: "load_bars st cache w now symb limit_opt start_opt end_opt days_opt purpose =
      (Inr (drop (length stored - nat T) stored), w1)"
    if ne: "stored \<noteq> []" and suff: "\<lceil>of_int T * s\<rceil> \<le> int (length stored)"
  proof -
    let ?df = "drop (length stored - nat fl) stored"
    have len: "int (length ?df) = min (int (length stored)) fl"
      using flT T1 by auto
    have "py_int (of_int T * s) \<le> int (length stored)"
      using suff py_int_le_ceiling[of "of_int T * s"] by linarith
    moreover have "py_int (of_int T * s) \<le> fl"
    proof -
      have "of_int T * s \<le> of_int T * (12 / 10)"
        using T1 assms(2) by (simp add: s_def mult_left_mono)
      then show ?thesis unfolding fl_def by (rule py_int_mono)
    qed
    ultimately have req: "py_int (of_int T * s) \<le> int (length ?df)" using len by simp
    have "0 < length stored" using ne by simp
    moreover have "0 < nat fl" using flT T1 by simp
    ultimately have "length stored - nat fl < length stored" by arith
    then have dfne: "?df \<noteq> []" by simp
    have "nat T \<le> nat fl" using flT by simp
    then have il: "iloc_last T ?df = drop (length stored - nat T) stored"
      using T1 by (simp add: iloc_last_def drop_drop_last del: drop_drop length_drop)
    show ?thesis
      unfolding load_bars_def Let_def T_def[symmetric] a_def[symmetric] b_def[symmetric]
        s_def[symmetric] db
      using req dfne il by simp
  qed
  have second: "\<exists>rest. events (snd (load_bars st cache w now symb limit_opt start_opt end_opt days_opt purpose))
         = events w @ [DbQuery, if cache then ParquetRead else ProviderFetch] @ rest"
    if less: "int (length stored) < py_int (of_int T * s)"
  proof -
    let ?df = "drop (length stored - nat fl) stored"
    have nreq: "\<not> py_int (of_int T * s) \<le> int (length ?df)" using less by simp
    show ?thesis
      unfolding load_bars_def Let_def T_def[symmetric] a_def[symmetric] b_def[symmetric]
        s_def[symmetric] db
      using nreq
      by (auto simp: w1_def load_from_parquet_def fetch_from_provider_def save_to_database_def
          save_to_parquet_def Let_def split: option.splits sum.splits prod.splits)
  qed
  show ?thesis
    unfolding Let_def T_def[symmetric] a_def[symmetric] b_def[symmetric] s_def[symmetric]
      stored_def[symmetric] w1_def[symmetric]
    using first second by blast
qed

lemma sample_stored:
  assumes "60 * int n \<le> e + 60"
  shows "in_range_bars (sample_world n) ''QQQ'' 0 e = map sample_row [0 ..< n]"
proof -
  have "filter (\<lambda>p. fst p = ''QQQ'' \<and> 0 \<le> r_ts (snd p) \<and> r_ts (snd p) \<le> e)
          (map (\<lambda>i. (''QQQ'', sample_row i)) [0 ..< n]) = map (\<lambda>i. (''QQQ'', sample_row i)) [0 ..< n]"
    using assms by (intro filter_True) (auto simp: sample_row_def)
  then have "in_range_bars (sample_world n) ''QQQ'' 0 e = sort_key r_ts (map sample_row [0 ..< n])"
    by (simp add: in_range_bars_def sample_world_def comp_def)
  moreover have "sorted (map r_ts (map sample_row [0 ..< n]))"
    by (auto simp: sorted_iff_nth_mono_less sample_row_def)
  ultimately show ?thesis by (simp add: sort_key_id_if_sorted)
qed

theorem load_bars_store_sufficient_witness:
  "load_bars sample_settings False (sample_world 85) 6000 ''QQQ'' (Some 100) (Some 0) (Some 6000)
      None ''monitor''
     = (Inr (map sample_row [0 ..< 85]), (sample_world 85)\<lparr>events := [DbQuery]\<rparr>) \<and>
   (\<exists>rest. events (snd (load_bars sample_settings False (sample_world 50) 6000 ''QQQ'' (Some 100)
      (Some 0) (Some 6000) None ''monitor'')) = [DbQuery, ProviderFetch] @ rest)"
proof -
  have h: "1 \<le> request_limit sample_settings (Some 100) ''monitor''"
    "data_sufficiency_threshold sample_settings \<le> 12 / 10"
    "db_query_fault (sample_world 85) = None" "db_query_fault (sample_world 50) = None"
    by (simp_all add: request_limit_def sample_settings_def sample_world_def)
  have s85: "in_range_bars (sample_world 85) ''QQQ'' 0 6000 = map sample_row [0 ..< 85]"
    and s50: "in_range_bars (sample_world 50) ''QQQ'' 0 6000 = map sample_row [0 ..< 50]"
    by (simp_all add: sample_stored)
  have c: "\<lceil>of_int 100 * data_sufficiency_threshold sample_settings\<rceil> = 80"
    "py_int (of_int 100 * data_sufficiency_threshold sample_settings) = 80"
    by (simp_all add: sample_settings_def py_int_def)
  have e: "events (sample_world 85) = []" "events (sample_world 50) = []"
    by (simp_all add: sample_world_def)
  show ?thesis
    using load_bars_store_sufficient [OF h(1) h(2) h(3), of "''QQQ''" 6000 "Some 0" "Some 6000" None False]
      load_bars_store_sufficient [OF h(1) h(2) h(4), of "''QQQ''" 6000 "Some 0" "Some 6000" None False]
    by (simp add: Let_def request_limit_def request_start_def request_end_def s85 s50 e
        sample_settings_def py_int_def del: upt_Suc)
qed

text \<open>
  C5 as stated fails when the threshold is 0 and the store is empty: the store then holds
  at least \<open>ceil(100 * 0) = 0\<close> bars, but an empty query result is never accepted (the
  test \<open>not df.empty\<close>), so the provider is consulted and its bar is returned and saved.
\<close>

theorem load_bars_empty_store_counterexample:
  "\<lceil>of_int 100 * data_sufficiency_threshold (sample_settings\<lparr>data_sufficiency_threshold := 0\<rparr>)\<rceil>
     \<le> int (length (in_range_bars (sample_world 0) ''QQQ'' 0 6000)) \<and>
   load_bars (sample_settings\<lparr>data_sufficiency_threshold := 0\<rparr>) False
     ((sample_world 0)\<lparr>provider_reply := (\<lambda>_ _ _. Inr [sample_row 7])\<rparr>) 6000 ''QQQ''
     (Some 100) (Some 0) (Some 6000) None ''monitor''
   = (Inr [sample_row 7],
      (sample_world 0)\<lparr>provider_reply := (\<lambda>_ _ _. Inr [sample_row 7]),
                        db_bars := [(''QQQ'', sample_row 7)],
                        events := [DbQuery, ProviderFetch, DbSave]\<rparr>)"
  by (simp add: load_bars_def load_from_database_def db_select_def in_range_bars_def
      fetch_from_provider_def save_to_database_def insert_ignore_def request_limit_def
      request_start_def request_end_def request_days_def py_int_def sample_world_def
      sample_settings_def Let_def)

lemma load_from_database_snd:
  "snd (load_from_database w symb T a b) = w\<lparr>events := events w @ [DbQuery]\<rparr>"
  by (simp add: load_from_database_def Let_def split: sum.splits)

lemma load_from_parquet_snd:
  "snd (load_from_parquet w symb a b) = w\<lparr>events := events w @ [ParquetRead]\<rparr>"
  by (simp add: load_from_parquet_def Let_def split: option.splits)

lemma fetch_from_provider_snd:
  "snd (fetch_from_provider w symb a b) = w\<lparr>events := events w @ [ProviderFetch]\<rparr>"
  by (simp add: fetch_from_provider_def Let_def split: sum.splits)

lemma load_from_parquet_events:
  "fst (load_from_parquet (w\<lparr>events := ev\<rparr>) symb a b) = fst (load_from_parquet w symb a b)"
  by (simp add: load_from_parquet_def Let_def split: option.splits)

lemma fetch_from_provider_events:
  "fst (fetch_from_provider (w\<lparr>events := ev\<rparr>) symb a b) = fst (fetch_from_provider w symb a b)"
  by (simp add: fetch_from_provider_def Let_def split: sum.splits)

lemma load_bars_result:
  "fst (load_bars st cache w now symb l s e d p) =
     (let limit = request_limit st l p;
          end_ts = request_end now e;
          start_ts = request_start st now s e d p;
          df = fst (load_from_database w symb limit start_ts end_ts);
          df2 = fst (load_from_parquet w symb start_ts end_ts);
          df3 = fst (fetch_from_provider w symb
                  (start_ts - py_int (of_int (request_days st d p) * (fetch_safety_margin st - 1)) * 86400)
                  end_ts)
      in Inr (if sufficient st limit df then iloc_last limit df
              else if cache \<and> sufficient st limit df2 then iloc_last limit df2
              else if df3 = [] then []
              else if limit < int (length df3) then iloc_last limit df3 else df3))"
proof -
  obtain df w1 where db: "load_from_database w symb (request_limit st l p)
      (request_start st now s e d p) (request_end now e) = (df, w1)"
    by (cases "load_from_database w symb (request_limit st l p)
      (request_start st now s e d p) (request_end now e)")
  have w1: "w1 = w\<lparr>events := events w @ [DbQuery]\<rparr>"
    using load_from_database_snd[of w symb "request_limit st l p"
      "request_start st now s e d p" "request_end now e"] db by simp
  obtain df2 w2 where pq: "load_from_parquet w1 symb (request_start st now s e d p)
      (request_end now e) = (df2, w2)"
    by (cases "load_from_parquet w1 symb (request_start st now s e d p) (request_end now e)")
  have df2: "df2 = fst (load_from_parquet w symb (request_start st now s e d p) (request_end now e))"
    using pq load_from_parquet_events[where w = w and ev = "events w @ [DbQuery]"] unfolding w1
    by (metis fst_conv)
  have w2: "w2 = w1\<lparr>events := events w1 @ [ParquetRead]\<rparr>"
    using load_from_parquet_snd[of w1 symb "request_start st now s e d p" "request_end now e"] pq
    by simp
  have f1: "fst (fetch_from_provider w1 symb a b) = fst (fetch_from_provider w symb a b)" for a b
    unfolding w1 by (rule fetch_from_provider_events)
  have f2: "fst (fetch_from_provider w2 symb a b) = fst (fetch_from_provider w symb a b)" for a b
    unfolding w2 w1 by (simp add: fetch_from_provider_events)
  show ?thesis
    unfolding load_bars_def Let_def db sufficient_def
    by (simp add: split_beta pq f1 f2 df2[symmetric])
qed

text \<open>
  C6. \<open>load_bars\<close> always returns a result, never an error. A failing store query gives
  the same result as an empty table, a failing cache read the same result as a missing
  cache file, a failing provider the same result as an empty reply; and when the store
  query, the cache read and the provider all fail, the result is the empty frame, after
  every enabled tier has been consulted in order and nothing has been written.
\<close>

theorem load_bars_never_raises:
  "(\<exists>df. fst (load_bars st cache w now symb l s e d p) = Inr df) \<and>
   fst (load_bars st cache (w\<lparr>db_query_fault := Some err\<rparr>) now symb l s e d p) =
     fst (load_bars st cache (w\<lparr>db_query_fault := None, db_bars := []\<rparr>) now symb l s e d p) \<and>
   fst (load_bars st cache (w\<lparr>parquet_read_fault := Some err\<rparr>) now symb l s e d p) =
     fst (load_bars st cache (w\<lparr>parquet_read_fault := None, parquet_files := (\<lambda>_. None)\<rparr>)
            now symb l s e d p) \<and>
   fst (load_bars st cache (w\<lparr>provider_reply := (\<lambda>_ _ _. Inl err)\<rparr>) now symb l s e d p) =
     fst (load_bars st cache (w\<lparr>provider_reply := (\<lambda>_ _ _. Inr [])\<rparr>) now symb l s e d p) \<and>
   (db_query_fault w = Some e1 \<and> parquet_read_fault w = Some e2 \<and>
    provider_reply w = (\<lambda>_ _ _. Inl e3) \<longrightarrow>
      load_bars st cache w now symb l s e d p =
        (Inr [], w\<lparr>events := events w @ DbQuery # (if cache then [ParquetRead] else [])
                                  @ [ProviderFetch]\<rparr>))"
proof -
  have 1: "\<exists>df. fst (load_bars st cache w now symb l s e d p) = Inr df"
    by (simp add: load_bars_result Let_def)
  have db: "fst (load_from_database (w\<lparr>db_query_fault := Some err\<rparr>) symb T a b) = []"
    "fst (load_from_database (w\<lparr>db_query_fault := None, db_bars := []\<rparr>) symb T a b) = []"
    for T a b
    by (simp_all add: load_from_database_def db_select_def in_range_bars_def Let_def)
  have pq: "fst (load_from_parquet (w\<lparr>parquet_read_fault := Some err\<rparr>) symb a b) = []"
    "fst (load_from_parquet (w\<lparr>parquet_read_fault := None, parquet_files := (\<lambda>_. None)\<rparr>) symb a b) = []"
    for a b
    by (simp_all add: load_from_parquet_def Let_def split: option.splits)
  have pr: "fst (fetch_from_provider (w\<lparr>provider_reply := (\<lambda>_ _ _. Inl err)\<rparr>) symb a b) = []"
    "fst (fetch_from_provider (w\<lparr>provider_reply := (\<lambda>_ _ _. Inr [])\<rparr>) symb a b) = []"
    for a b
    by (simp_all add: fetch_from_provider_def Let_def)
  have other:
    "fst (load_from_parquet (w\<lparr>db_query_fault := x\<rparr>) symb a b) = fst (load_from_parquet w symb a b)"
    "fst (load_from_parquet (w\<lparr>db_query_fault := x, db_bars := y\<rparr>) symb a b) = fst (load_from_parquet w symb a b)"
    "fst (load_from_parquet (w\<lparr>provider_reply := z\<rparr>) symb a b) = fst (load_from_parquet w symb a b)"
    "fst (fetch_from_provider (w\<lparr>db_query_fault := x\<rparr>) symb a b) = fst (fetch_from_provider w symb a b)"
    "fst (fetch_from_provider (w\<lparr>db_query_fault := x, db_bars := y\<rparr>) symb a b) = fst (fetch_from_provider w symb a b)"
    "fst (fetch_from_provider (w\<lparr>parquet_read_fault := x\<rparr>) symb a b) = fst (fetch_from_provider w symb a b)"
    "fst (fetch_from_provider (w\<lparr>parquet_read_fault := x, parquet_files := u\<rparr>) symb a b) = fst (fetch_from_provider w symb a b)"
    "fst (load_from_database (w\<lparr>parquet_read_fault := x\<rparr>) symb T a b) = fst (load_from_database w symb T a b)"
    "fst (load_from_database (w\<lparr>parquet_read_fault := x, parquet_files := u\<rparr>) symb T a b) = fst (load_from_database w symb T a b)"
    "fst (load_from_database (w\<lparr>provider_reply := z\<rparr>) symb T a b) = fst (load_from_database w symb T a b)"
    for x y z u T a b
    by (simp_all add: load_from_parquet_def fetch_from_provider_def load_from_database_def
        db_select_def in_range_bars_def Let_def split: option.splits sum.splits)
  have 2: "fst (load_bars st cache (w\<lparr>db_query_fault := Some err\<rparr>) now symb l s e d p) =
     fst (load_bars st cache (w\<lparr>db_query_fault := None, db_bars := []\<rparr>) now symb l s e d p)"
    by (simp only: load_bars_result Let_def db other)
  have 3: "fst (load_bars st cache (w\<lparr>parquet_read_fault := Some err\<rparr>) now symb l s e d p) =
     fst (load_bars st cache (w\<lparr>parquet_read_fault := None, parquet_files := (\<lambda>_. None)\<rparr>)
            now symb l s e d p)"
    by (simp only: load_bars_result Let_def pq other)
  have 4: "fst (load_bars st cache (w\<lparr>provider_reply := (\<lambda>_ _ _. Inl err)\<rparr>) now symb l s e d p) =
     fst (load_bars st cache (w\<lparr>provider_reply := (\<lambda>_ _ _. Inr [])\<rparr>) now symb l s e d p)"
    by (simp only: load_bars_result Let_def pr other)
  have 5: "load_bars st cache w now symb l s e d p =
        (Inr [], w\<lparr>events := events w @ DbQuery # (if cache then [ParquetRead] else [])
                                  @ [ProviderFetch]\<rparr>)"
    if "db_query_fault w = Some e1 \<and> parquet_read_fault w = Some e2 \<and>
        provider_reply w = (\<lambda>_ _ _. Inl e3)"
    using that unfolding load_bars_def Let_def
    by (simp add: load_from_database_def db_select_def Let_def
        load_from_parquet_def fetch_from_provider_def split: option.splits)
  from 1 2 3 4 5 show ?thesis by blast
qed

theorem load_bars_never_raises_witness:
  "load_bars sample_settings True
     ((sample_world 3)\<lparr>db_query_fault := Some IOError, parquet_read_fault := Some IOError\<rparr>)
     6000 ''QQQ'' None None None None ''monitor''
   = (Inr [],
      (sample_world 3)\<lparr>db_query_fault := Some IOError, parquet_read_fault := Some IOError,
                        events := [DbQuery, ParquetRead, ProviderFetch]\<rparr>)"
  using load_bars_never_raises [where st = sample_settings and cache = True
      and w = "(sample_world 3)\<lparr>db_query_fault := Some IOError, parquet_read_fault := Some IOError\<rparr>"
      and now = 6000 and symb = "''QQQ''" and l = None and s = None and e = None and d = None
      and p = "''monitor''" and err = IOError and ?e1.0 = IOError and ?e2.0 = IOError
      and ?e3.0 = IOError]
  by (simp add: sample_world_def)

section \<open>Monitor service and manager: results\<close>



lemma length_append_trim: "length (append_trim buf r) \<le> 3000"
  by (simp add: append_trim_def Let_def)

lemma append_trim_cases:
  "append_trim buf r =
     (if 3000 < length buf + 1 then drop (length buf + 1 - 2200) (buf @ [r]) else buf @ [r])"
  by (simp add: append_trim_def Let_def)

lemma buffers_process_bar:
  "buffers (on_bar st sv b) symb =
     (if fb_symbol b = symb
      then map_option (\<lambda>buf. append_trim buf (bar_dict b)) (buffers sv symb)
      else buffers sv symb)"
  by (auto simp: on_bar_def process_bar_def Let_def split: option.splits sum.splits)

lemma run_feed_Cons: "run_feed st sv (b # bs) = run_feed st (on_bar st sv b) bs"
  by (simp add: run_feed_def)

lemma run_feed_bounded:
  "(\<forall>symb buf. buffers sv symb = Some buf \<longrightarrow> length buf \<le> 3000) \<Longrightarrow>
   buffers (run_feed st sv bs) symb = Some buf \<Longrightarrow> length buf \<le> 3000"
proof (induction bs arbitrary: sv)
  case Nil
  then show ?case by (simp add: run_feed_def)
next
  case (Cons b bs)
  have "\<forall>symb buf. buffers (on_bar st sv b) symb = Some buf \<longrightarrow> length buf \<le> 3000"
    using Cons.prems(1) by (auto simp: buffers_process_bar length_append_trim split: if_splits)
  with Cons.IH Cons.prems(2) show ?case by (simp add: run_feed_Cons)
qed

lemma run_feed_bounded_symbol:
  "(\<forall>buf. buffers sv symb = Some buf \<longrightarrow> length buf \<le> 3000) \<or>
     (\<exists>b \<in> set bs. fb_symbol b = symb) \<Longrightarrow>
   buffers (run_feed st sv bs) symb = Some buf \<Longrightarrow> length buf \<le> 3000"
proof (induction bs arbitrary: sv)
  case Nil
  then show ?case by (simp add: run_feed_def)
next
  case (Cons b bs)
  have "(\<forall>buf. buffers (on_bar st sv b) symb = Some buf \<longrightarrow> length buf \<le> 3000) \<or>
     (\<exists>b \<in> set bs. fb_symbol b = symb)"
  proof (cases "fb_symbol b = symb")
    case True
    then show ?thesis by (auto simp: buffers_process_bar length_append_trim)
  next
    case False
    with Cons.prems(1) show ?thesis by (auto simp: buffers_process_bar)
  qed
  with Cons.IH Cons.prems(2) show ?case by (simp add: run_feed_Cons)
qed

text \<open>
  C7. Processing a bar leaves at most 3000 rows in the buffer of its symbol, whatever the
  buffer held before: when the append makes the length exceed 3000, the buffer becomes
  exactly the last 2200 rows, in their order, and otherwise the row is appended. Hence,
  after any feed, every buffer that started within the ceiling or has received a bar
  holds at most 3000 rows.
\<close>

theorem buffer_never_exceeds_capacity:
  "(buffers sv (fb_symbol b) = Some buf \<longrightarrow>
      (\<exists>buf'. buffers (on_bar st sv b) (fb_symbol b) = Some buf' \<and>
         length buf' \<le> 3000 \<and>
         (if 3000 < length buf + 1
          then buf' = drop (length buf + 1 - 2200) (buf @ [bar_dict b]) \<and> length buf' = 2200
          else buf' = buf @ [bar_dict b]))) \<and>
   ((\<forall>symb buf. buffers sv symb = Some buf \<longrightarrow> length buf \<le> 3000) \<longrightarrow>
      (\<forall>symb buf. buffers (run_feed st sv bs) symb = Some buf \<longrightarrow> length buf \<le> 3000)) \<and>
   (\<forall>symb buf. (\<exists>b \<in> set bs. fb_symbol b = symb) \<and>
        buffers (run_feed st sv bs) symb = Some buf \<longrightarrow> length buf \<le> 3000)"
proof -
  have "\<exists>buf'. buffers (on_bar st sv b) (fb_symbol b) = Some buf' \<and>
         length buf' \<le> 3000 \<and>
         (if 3000 < length buf + 1
          then buf' = drop (length buf + 1 - 2200) (buf @ [bar_dict b]) \<and> length buf' = 2200
          else buf' = buf @ [bar_dict b])"
    if "buffers sv (fb_symbol b) = Some buf"
    using that by (simp add: buffers_process_bar append_trim_cases)
  moreover have "\<forall>symb buf. buffers (run_feed st sv bs) symb = Some buf \<longrightarrow> length buf \<le> 3000"
    if "\<forall>symb buf. buffers sv symb = Some buf \<longrightarrow> length buf \<le> 3000"
    using that run_feed_bounded by blast
  moreover have "\<forall>symb buf. (\<exists>b \<in> set bs. fb_symbol b = symb) \<and>
        buffers (run_feed st sv bs) symb = Some buf \<longrightarrow> length buf \<le> 3000"
    using run_feed_bounded_symbol by blast
  ultimately show ?thesis by blast
qed

theorem buffer_never_exceeds_capacity_witness:
  "buffers (on_bar sample_settings (sample_service 3000) (sample_bar 3000)) ''QQQ''
     = Some (drop 801 (map sample_row [0 ..< 3000] @ [bar_dict (sample_bar 3000)])) \<and>
   length (drop 801 (map sample_row [0 ..< 3000] @ [bar_dict (sample_bar 3000)])) = 2200 \<and>
   (\<exists>buf. buffers (run_feed sample_settings (sample_service 3000)
                     [sample_bar 3000, sample_bar 3001]) ''QQQ'' = Some buf \<and>
          length buf \<le> 3000)"
proof -
  have b: "buffers (sample_service 3000) (fb_symbol (sample_bar 3000))
      = Some (map sample_row [0 ..< 3000])"
    by (simp add: sample_service_def sample_bar_def)
  have l: "\<forall>symb buf. buffers (sample_service 3000) symb = Some buf \<longrightarrow> length buf \<le> 3000"
    by (auto simp: sample_service_def split: if_splits)
  have s: "fb_symbol (sample_bar 3000) = ''QQQ''" by (simp add: sample_bar_def)
  have e: "\<exists>buf. buffers (run_feed sample_settings (sample_service 3000)
                     [sample_bar 3000, sample_bar 3001]) ''QQQ'' = Some buf"
    by (simp add: run_feed_def buffers_process_bar sample_service_def sample_bar_def)
  show ?thesis
    using buffer_never_exceeds_capacity [of "sample_service 3000" "sample_bar 3000"
        "map sample_row [0 ..< 3000]" sample_settings "[sample_bar 3000, sample_bar 3001]"] b l e
    by (auto simp add: s simp del: upt_Suc)
qed

lemma sorted_wrt_drop_append:
  "sorted_wrt P (xs @ ys) \<Longrightarrow> sorted_wrt P (drop n xs @ ys)"
  by (metis append_take_drop_id sorted_wrt_append append.assoc)

lemma run_feed_sorted:
  "buffers sv symb = Some buf \<Longrightarrow>
   sorted_wrt (<) (map r_ts buf @ map fb_timestamp (filter (\<lambda>b. fb_symbol b = symb) bs)) \<Longrightarrow>
   \<exists>buf'. buffers (run_feed st sv bs) symb = Some buf' \<and> sorted_wrt (<) (map r_ts buf')"
proof (induction bs arbitrary: sv buf)
  case Nil
  then show ?case by (simp add: run_feed_def)
next
  case (Cons b bs)
  let ?rest = "map fb_timestamp (filter (\<lambda>b. fb_symbol b = symb) bs)"
  show ?case
  proof (cases "fb_symbol b = symb")
    case True
    let ?buf1 = "append_trim buf (bar_dict b)"
    have b1: "buffers (on_bar st sv b) symb = Some ?buf1"
      using True Cons.prems(1) by (simp add: buffers_process_bar)
    have full: "sorted_wrt (<) (map r_ts (buf @ [bar_dict b]) @ ?rest)"
      using Cons.prems(2) True by (simp add: bar_dict_def)
    have "sorted_wrt (<) (map r_ts ?buf1 @ ?rest)"
    proof (cases "3000 < length buf + 1")
      case True
      have "sorted_wrt (<) (drop (length buf + 1 - 2200) (map r_ts (buf @ [bar_dict b])) @ ?rest)"
        using full by (rule sorted_wrt_drop_append)
      with True show ?thesis by (simp add: append_trim_cases drop_map)
    next
      case False
      with full show ?thesis by (simp add: append_trim_cases)
    qed
    from Cons.IH[OF b1 this] show ?thesis by (simp add: run_feed_Cons)
  next
    case False
    have b1: "buffers (on_bar st sv b) symb = Some buf"
      using False Cons.prems(1) by (simp add: buffers_process_bar)
    have "sorted_wrt (<) (map r_ts buf @ ?rest)" using Cons.prems(2) False by simp
    from Cons.IH[OF b1 this] show ?thesis by (simp add: run_feed_Cons)
  qed
qed

text \<open>
  C8 (amended). The service appends each incoming bar to the end of its symbol's buffer
  without looking at its timestamp, and trimming keeps a suffix. So a buffer that is
  strictly increasing in timestamp after warm-start stays strictly increasing, with no
  duplicates, for every feed whose bars of that symbol carry strictly increasing
  timestamps later than the last buffered one.
\<close>

theorem buffer_strictly_increasing:
  assumes "buffers sv symb = Some buf"
    and "sorted_wrt (<) (map r_ts buf @ map fb_timestamp (filter (\<lambda>b. fb_symbol b = symb) bs))"
  shows "\<exists>buf'. buffers (run_feed st sv bs) symb = Some buf' \<and>
           sorted_wrt (<) (map r_ts buf') \<and> distinct (map r_ts buf')"
proof -
  from run_feed_sorted[OF assms] obtain buf' where
    b: "buffers (run_feed st sv bs) symb = Some buf'" "sorted_wrt (<) (map r_ts buf')"
    by blast
  from b(2) have "distinct (map r_ts buf')" by (simp add: strict_sorted_iff)
  with b show ?thesis by blast
qed

theorem buffer_strictly_increasing_witness:
  "\<exists>buf'. buffers (run_feed sample_settings (sample_service 2) [sample_bar 2, sample_bar 3]) ''QQQ''
             = Some buf' \<and>
          sorted_wrt (<) (map r_ts buf') \<and> distinct (map r_ts buf')"
proof -
  have b: "buffers (sample_service 2) ''QQQ'' = Some (map sample_row [0 ..< 2])"
    by (simp add: sample_service_def)
  have s: "sorted_wrt (<) (map r_ts (map sample_row [0 ..< 2]) @
      map fb_timestamp (filter (\<lambda>b. fb_symbol b = ''QQQ'') [sample_bar 2, sample_bar 3]))"
    by (simp add: sample_row_def sample_bar_def upt_rec)
  show ?thesis using buffer_strictly_increasing [OF b s, of sample_settings] .
qed

text \<open>
  C8 as stated fails: the feed may deliver a bar whose timestamp is already in the buffer.
  The buffer of QQQ holds the bars at 0 and 60; a second bar at 60 is appended as it is.
\<close>

theorem buffer_duplicate_timestamp_counterexample:
  "sorted_wrt (<) (map r_ts (map sample_row [0 ..< 2])) \<and>
   buffers (sample_service 2) ''QQQ'' = Some (map sample_row [0 ..< 2]) \<and>
   map_option (map r_ts) (buffers (on_bar sample_settings (sample_service 2) (sample_bar 1)) ''QQQ'')
     = Some [0, 60, 60] \<and>
   \<not> sorted_wrt (<) [0, 60, 60 :: int]"
  by (simp add: buffers_process_bar append_trim_cases sample_service_def sample_bar_def
      sample_row_def bar_dict_def upt_rec)

text \<open>
  C9. When a call of \<open>start_monitor\<close> has started a monitor, a second call with the same
  configuration made while that task is not done returns "already running" with the same
  key, leaves the manager (registry, provider, tasks created) exactly as it was, so that
  every further call does the same; when instead the registered task is done, the call
  starts again: the entry of the key is replaced by one with a task created by this call.
\<close>

theorem start_monitor_twice:
  assumes "start_monitor st done0 m tickers ind_name sig_type =
             (Inr (Started k tickers ind_name sig_type), m1)"
  shows "k = get_key tickers ind_name sig_type \<and>
         (\<exists>info. monitors m1 k = Some info \<and>
            (\<not> done1 (mi_task info) \<longrightarrow>
               start_monitor st done1 m1 tickers ind_name sig_type =
                 (Inr (AlreadyRunning k tickers), m1)) \<and>
            (done1 (mi_task info) \<longrightarrow>
               (\<exists>info'. start_monitor st done1 m1 tickers ind_name sig_type =
                           (Inr (Started k tickers ind_name sig_type),
                            m1\<lparr>monitors := (monitors m1)(k \<mapsto> info'),
                               next_task := Suc (next_task m1)\<rparr>) \<and>
                         mi_task info' = next_task m1 \<and>
                         mi_task info' \<noteq> mi_task info)))"
proof -
  define key where "key = get_key tickers ind_name sig_type"
  from assms have valid: "ind_name \<in> set INDICATOR_MAP" "sig_type \<in> set DETECTOR_MAP"
    by (auto simp: start_monitor_def Let_def split: option.splits sum.splits if_splits)
  from assms have k: "k = key"
    by (auto simp: start_monitor_def Let_def key_def split: option.splits sum.splits if_splits)
  from assms obtain info where info: "monitors m1 key = Some info"
    "mi_task info < next_task m1" and prov: "provider m1 \<noteq> None"
    by (auto simp: start_monitor_def Let_def key_def split: option.splits sum.splits if_splits)
  have run: "start_monitor st done1 m1 tickers ind_name sig_type =
                 (Inr (AlreadyRunning key tickers), m1)" if "\<not> done1 (mi_task info)"
    using that info by (simp add: start_monitor_def Let_def key_def[symmetric])
  have again: "\<exists>info'. start_monitor st done1 m1 tickers ind_name sig_type =
                           (Inr (Started key tickers ind_name sig_type),
                            m1\<lparr>monitors := (monitors m1)(key \<mapsto> info'),
                               next_task := Suc (next_task m1)\<rparr>) \<and>
                         mi_task info' = next_task m1 \<and>
                         mi_task info' \<noteq> mi_task info" if "done1 (mi_task info)"
  proof -
    from prov obtain p where p: "provider m1 = Some p" by auto
    let ?info' = "\<lparr>mi_task = next_task m1, mi_tickers = tickers,
                            mi_indicator = ind_name, mi_signal_type = sig_type\<rparr>"
    have "start_monitor st done1 m1 tickers ind_name sig_type =
                           (Inr (Started key tickers ind_name sig_type),
                            m1\<lparr>monitors := (monitors m1)(key \<mapsto> ?info'),
                               next_task := Suc (next_task m1)\<rparr>)"
      using that info p valid by (simp add: start_monitor_def Let_def key_def[symmetric])
    moreover have "mi_task ?info' \<noteq> mi_task info" using info(2) by simp
    ultimately show ?thesis by (intro exI[of _ ?info']) simp
  qed
  show ?thesis unfolding k key_def[symmetric] using info(1) run again by blast
qed

theorem start_monitor_twice_witness:
  "\<exists>m1 info.
     start_monitor sample_settings (\<lambda>_. False) sample_manager [''QQQ''] ''rsi''
         ''hidden_bullish_divergence''
       = (Inr (Started ''QQQ:rsi:hidden_bullish_divergence'' [''QQQ''] ''rsi''
                 ''hidden_bullish_divergence''), m1) \<and>
     monitors m1 ''QQQ:rsi:hidden_bullish_divergence'' = Some info \<and>
     start_monitor sample_settings (\<lambda>_. False) m1 [''QQQ''] ''rsi'' ''hidden_bullish_divergence''
       = (Inr (AlreadyRunning ''QQQ:rsi:hidden_bullish_divergence'' [''QQQ'']), m1) \<and>
     fst (start_monitor sample_settings (\<lambda>_. True) m1 [''QQQ''] ''rsi''
            ''hidden_bullish_divergence'')
       = Inr (Started ''QQQ:rsi:hidden_bullish_divergence'' [''QQQ''] ''rsi''
                ''hidden_bullish_divergence'')"
proof -
  obtain m1 where first:
    "start_monitor sample_settings (\<lambda>_. False) sample_manager [''QQQ''] ''rsi''
         ''hidden_bullish_divergence''
       = (Inr (Started ''QQQ:rsi:hidden_bullish_divergence'' [''QQQ''] ''rsi''
                 ''hidden_bullish_divergence''), m1)"
    by (simp add: start_monitor_def get_key_def sample_manager_def sample_settings_def
        get_provider_def INDICATOR_MAP_def DETECTOR_MAP_def Let_def)
  from start_monitor_twice [OF first, of "\<lambda>_. False"]
    start_monitor_twice [OF first, of "\<lambda>_. True"] first
  show ?thesis by auto
qed

section \<open>Indicators: bounds and totality\<close>


lemma ewm_loop_nonneg:
  assumes "0 \<le> a" "a \<le> 1" "0 \<le> w"
    and "\<forall>x \<in> set xs. \<exists>v. x = Some v \<and> 0 \<le> v"
  shows "\<forall>x \<in> set (ewm_loop a (Some w) 1 xs). \<exists>v. x = Some v \<and> 0 \<le> v"
  using assms(3,4)
proof (induction xs arbitrary: w)
  case Nil
  then show ?case by simp
next
  case (Cons x xs)
  from Cons.prems(2) obtain c where c: "x = Some c" "0 \<le> c" by auto
  define w' where "w' = (if w \<noteq> c then ((1 - a) * w + a * c) / ((1 - a) + a) else w)"
  have w': "0 \<le> w'" using assms(1,2) Cons.prems(1) c(2) by (simp add: w'_def)
  have "ewm_loop a (Some w) 1 (x # xs) = Some w' # ewm_loop a (Some w') 1 xs"
    by (simp add: c w'_def Let_def)
  moreover have "\<forall>x \<in> set (ewm_loop a (Some w') 1 xs). \<exists>v. x = Some v \<and> 0 \<le> v"
    using Cons.IH[OF w'] Cons.prems(2) by simp
  ultimately show ?case using w' by simp
qed

lemma ewm_mean_nonneg:
  assumes "ewm_mean period (map Some xs) = Inr ys" and "\<forall>x \<in> set xs. 0 \<le> x"
  shows "\<forall>y \<in> set ys. \<exists>v. y = Some v \<and> 0 \<le> v"
proof (cases xs)
  case Nil
  with assms show ?thesis by (simp add: ewm_mean_def split: if_splits)
next
  case (Cons x rest)
  from assms(1) have p: "1 \<le> period" by (simp add: ewm_mean_def split: if_splits)
  let ?a = "2 / (of_int period + 1) :: real"
  have a: "0 \<le> ?a" "?a \<le> 1" using p by simp_all
  have ys: "ys = Some x # ewm_loop ?a (Some x) 1 (map Some rest)"
    using assms(1) p Cons by (simp add: ewm_mean_def)
  have "\<forall>y \<in> set (ewm_loop ?a (Some x) 1 (map Some rest)). \<exists>v. y = Some v \<and> 0 \<le> v"
    using assms(2) Cons by (intro ewm_loop_nonneg[OF a]) auto
  then show ?thesis using ys assms(2) Cons by simp
qed

lemma set_bfill: "set (bfill xs) \<subseteq> insert None (set xs)"
proof (induction xs)
  case Nil
  then show ?case by simp
next
  case (Cons x xs)
  show ?case
  proof (cases "bfill xs")
    case Nil
    with Cons show ?thesis by (auto simp: Let_def split: option.splits)
  next
    case (Cons y ys)
    then have "y \<in> set (bfill xs)" by simp
    with Cons.IH have "y \<in> insert None (set xs)" by blast
    with Cons Cons.IH show ?thesis by (auto simp: Let_def split: option.splits)
  qed
qed

lemma rsi_value_bounds:
  assumes "0 \<le> r"
  shows "0 \<le> 100 - 100 / (1 + r)" "100 - 100 / (1 + r) \<le> (100::real)"
proof -
  have "100 / (1 + r) \<le> 100 / 1" using assms by (intro divide_left_mono) simp_all
  then show "0 \<le> 100 - 100 / (1 + r)" by simp
  show "100 - 100 / (1 + r) \<le> (100::real)" using assms by simp
qed

lemma RSI_compute_bounded:
  assumes "RSI_compute period close = Inr r"
  shows "\<forall>p \<in> set r. 0 \<le> snd p \<and> snd p \<le> 100"
proof -
  define delta where "delta = diff (map snd close)"
  obtain gain_ema where g: "ewm_mean period (map Some (map rsi_gain delta)) = Inr gain_ema"
    using assms by (auto simp: RSI_compute_def Let_def delta_def split: sum.splits)
  obtain loss_ema where l: "ewm_mean period (map Some (map rsi_loss delta)) = Inr loss_ema"
    using assms by (auto simp: RSI_compute_def Let_def delta_def split: sum.splits)
  define rsi where "rsi = map rsi_value (map2 nan_div gain_ema (map replace_zero_nan loss_ema))"
  have r: "r = zip (map fst close) (fillna 50 (bfill rsi))"
    using assms g l by (simp add: RSI_compute_def Let_def delta_def rsi_def)
  have gn: "\<forall>y \<in> set gain_ema. \<exists>v. y = Some v \<and> 0 \<le> v"
    using g by (rule ewm_mean_nonneg) (auto simp: rsi_gain_def split: option.splits)
  have ln: "\<forall>y \<in> set loss_ema. \<exists>v. y = Some v \<and> 0 \<le> v"
    using l by (rule ewm_mean_nonneg) (auto simp: rsi_loss_def split: option.splits)
  have rs: "0 \<le> v \<and> v \<le> 100" if "Some v \<in> set rsi" for v
  proof -
    from that obtain a b where ab: "a \<in> set gain_ema" "b \<in> set loss_ema"
      "Some v = rsi_value (nan_div a (replace_zero_nan b))"
      unfolding rsi_def by (auto simp: in_set_zip) (metis nth_mem)
    from gn ln ab obtain x y where xy: "a = Some x" "0 \<le> x" "b = Some y" "0 \<le> y" by blast
    from ab(3) xy have "y \<noteq> 0" and v: "v = 100 - 100 / (1 + x / y)"
      by (auto simp: rsi_value_def nan_div_def replace_zero_nan_def split: if_splits)
    have "0 \<le> x / y" using xy by simp
    from rsi_value_bounds[OF this] v show ?thesis by simp
  qed
  have "0 \<le> v \<and> v \<le> 100" if "v \<in> set (fillna 50 (bfill rsi))" for v
  proof -
    from that obtain x where x: "x \<in> set (bfill rsi)" "v = (case x of None \<Rightarrow> 50 | Some u \<Rightarrow> u)"
      by (auto simp: fillna_def)
    show ?thesis
    proof (cases x)
      case None
      with x show ?thesis by simp
    next
      case (Some u)
      with x set_bfill[of rsi] have "Some u \<in> set rsi" by auto
      with rs Some x show ?thesis by simp
    qed
  qed
  then show ?thesis unfolding r by (auto dest: set_zip_rightD)
qed

lemma RSI_compute_total: "1 \<le> period \<Longrightarrow> \<exists>r. RSI_compute period close = Inr r"
  by (simp add: RSI_compute_def ewm_mean_def Let_def)

lemma tsi_denominator_total: "1 \<le> long \<Longrightarrow> 1 \<le> short \<Longrightarrow> \<exists>r. tsi_denominator long short close = Inr r"
  by (simp add: tsi_denominator_def ewm_mean_def Let_def)

lemma TSI_compute_total: "1 \<le> long \<Longrightarrow> 1 \<le> short \<Longrightarrow> \<exists>r. TSI_compute long short close = Inr r"
  by (simp add: TSI_compute_def tsi_denominator_def ewm_mean_def Let_def)

end
